theory Spec2Isabelle
  imports Complex_Main "HOL-Library.Log_Nat"
begin

section \<open>Data model (aiops.ts)\<close>

text \<open>
  The readings of a sample, the clock readings and the fields of the policy are finite
  JavaScript numbers and are modelled as \<open>real\<close>; comparisons, \<open>Math.max\<close> and
  \<open>Math.min\<close> of such numbers are exact. The statistics of the detector (\<open>meanStd\<close>,
  \<open>z\<close>, the slope and the rise of \<open>detectRamLeak\<close>) are computed in IEEE 754 binary64
  arithmetic, modelled in the section on double-precision arithmetic below: every
  operation rounds to the nearest double, ties to even, and may give an infinity or NaN.
  Readings of \<open>Date.now()\<close> are parameters of the operation that takes them.

  The fields \<open>id\<close>, \<open>at\<close> and \<open>message\<close> of an event are a fresh token, a time stamp and
  a display text; no operation of the detector or of the controller reads them, and the
  model leaves them out. String literals that are not ASCII in the source are written as
  ASCII glosses.
\<close>

record MetricsSample =
  cpu :: real
  ram :: real
  disk :: real
  io :: real
  errors :: real
  updatedAt :: string
  source :: "string option"

datatype AiSeverity = info | warn | critical

datatype AiEventType =
    cpu_spike
  | ram_spike
  | ram_leak
  | disk_full
  | io_spike
  | agent_unreachable
  | rate_limit_enabled
  | node_isolated
  | selfheal_noop

text \<open>
  \<open>seconds\<close> is optional in the model because \<open>SelfHealing.apply\<close> reads it as
  \<open>a.seconds ?? this.cfg.rateLimitSeconds\<close>.
\<close>

datatype AiAction =
    enable_rate_limit string "real option"
  | isolate_node string
  | restart_service string string
  | restart_container string string
  | load_balance_hint string

datatype Mode = dry_run | armed

record AiEvent =
  ev_type :: AiEventType
  severity :: AiSeverity
  ev_source :: string
  metrics :: "MetricsSample option"
  actions :: "AiAction list option"
  executed :: "(Mode \<times> AiAction list) option"

record SelfHealConfig =
  enabled :: bool
  mode :: Mode
  rateLimitSeconds :: real

definition clamp :: "real \<Rightarrow> real \<Rightarrow> real \<Rightarrow> real" where
  "clamp n a b = max a (min b n)"

section \<open>Double-precision arithmetic\<close>

text \<open>
  A JavaScript number is a finite double, an infinity or NaN. The two zeros are not
  told apart: the statistics below divide only behind the guards \<open>std > 0.001\<close>,
  \<open>den > 0\<close> and by a length that is not zero, so the sign of a zero is never observed.
\<close>

datatype number = Fin real | PInf | NInf | NaN

definition pow2 :: "int \<Rightarrow> real" where
  "pow2 k = (if k \<ge> 0 then 2 ^ nat k else 1 / 2 ^ nat (- k))"

text \<open>The binary exponent of \<open>x \<noteq> 0\<close>: the \<open>e\<close> with \<open>2 ^ e \<le> \<bar>x\<bar> < 2 ^ (e + 1)\<close>.\<close>

definition expo :: "real \<Rightarrow> int" where
  "expo x = (if \<bar>x\<bar> \<ge> 1 then bitlen \<lfloor>\<bar>x\<bar>\<rfloor> - 1 else - bitlen (\<lceil>1 / \<bar>x\<bar>\<rceil> - 1))"

text \<open>Rounding to the nearest integer, ties to the even one.\<close>

definition rne :: "real \<Rightarrow> int" where
  "rne m =
     (let f = \<lfloor>m\<rfloor>; d = m - of_int f
      in if d < 1 / 2 then f else if d > 1 / 2 then f + 1 else if even f then f else f + 1)"

text \<open>
  Rounding of a real to binary64: 53 significant bits, least exponent \<open>- 1022\<close>
  (below it the spacing stays \<open>2 ^ (- 1074)\<close>, the subnormal numbers), and overflow to an
  infinity when the rounded value reaches \<open>2 ^ 1024\<close>.
\<close>

definition rd :: "real \<Rightarrow> number" where
  "rd x =
     (if x = 0 then Fin 0
      else
        let q = max (expo x) (- 1022) - 52;
            y = of_int (rne (x / pow2 q)) * pow2 q
        in if \<bar>y\<bar> \<ge> pow2 1024 then (if x > 0 then PInf else NInf) else Fin y)"

text \<open>
  The operations take the rounding \<open>r\<close> of a finite result as a parameter: \<open>r = rd\<close> is
  the arithmetic of the program, \<open>r = Fin\<close> is exact arithmetic.
\<close>

fun num_neg :: "number \<Rightarrow> number" where
  "num_neg (Fin a) = Fin (- a)"
| "num_neg PInf = NInf"
| "num_neg NInf = PInf"
| "num_neg NaN = NaN"

fun num_add :: "(real \<Rightarrow> number) \<Rightarrow> number \<Rightarrow> number \<Rightarrow> number" where
  "num_add r (Fin a) (Fin b) = r (a + b)"
| "num_add r NaN y = NaN"
| "num_add r x NaN = NaN"
| "num_add r PInf NInf = NaN"
| "num_add r NInf PInf = NaN"
| "num_add r PInf y = PInf"
| "num_add r NInf y = NInf"
| "num_add r (Fin a) y = y"

definition num_sub :: "(real \<Rightarrow> number) \<Rightarrow> number \<Rightarrow> number \<Rightarrow> number" where
  "num_sub r x y = num_add r x (num_neg y)"

text \<open>An infinity of the sign of \<open>c\<close>.\<close>

definition inf_of_sign :: "real \<Rightarrow> number" where
  "inf_of_sign c = (if c > 0 then PInf else NInf)"

fun num_mul :: "(real \<Rightarrow> number) \<Rightarrow> number \<Rightarrow> number \<Rightarrow> number" where
  "num_mul r (Fin a) (Fin b) = r (a * b)"
| "num_mul r NaN y = NaN"
| "num_mul r x NaN = NaN"
| "num_mul r PInf (Fin b) = (if b = 0 then NaN else inf_of_sign b)"
| "num_mul r NInf (Fin b) = (if b = 0 then NaN else inf_of_sign (- b))"
| "num_mul r (Fin a) PInf = (if a = 0 then NaN else inf_of_sign a)"
| "num_mul r (Fin a) NInf = (if a = 0 then NaN else inf_of_sign (- a))"
| "num_mul r PInf PInf = PInf"
| "num_mul r NInf NInf = PInf"
| "num_mul r PInf NInf = NInf"
| "num_mul r NInf PInf = NInf"

fun num_div :: "(real \<Rightarrow> number) \<Rightarrow> number \<Rightarrow> number \<Rightarrow> number" where
  "num_div r (Fin a) (Fin b) =
     (if b = 0 then (if a = 0 then NaN else inf_of_sign a) else r (a / b))"
| "num_div r NaN y = NaN"
| "num_div r x NaN = NaN"
| "num_div r (Fin a) y = Fin 0"
| "num_div r PInf (Fin b) = (if b \<ge> 0 then PInf else NInf)"
| "num_div r NInf (Fin b) = (if b \<ge> 0 then NInf else PInf)"
| "num_div r x y = NaN"

text \<open>\<open>Math.sqrt\<close>, taken as correctly rounded.\<close>

fun num_sqrt :: "(real \<Rightarrow> number) \<Rightarrow> number \<Rightarrow> number" where
  "num_sqrt r (Fin a) = (if a < 0 then NaN else r (sqrt a))"
| "num_sqrt r PInf = PInf"
| "num_sqrt r NInf = NaN"
| "num_sqrt r NaN = NaN"

text \<open>The comparisons: every comparison with NaN is false.\<close>

fun num_le :: "number \<Rightarrow> number \<Rightarrow> bool" where
  "num_le (Fin a) (Fin b) = (a \<le> b)"
| "num_le NaN y = False"
| "num_le x NaN = False"
| "num_le NInf y = True"
| "num_le x PInf = True"
| "num_le x y = False"

fun num_lt :: "number \<Rightarrow> number \<Rightarrow> bool" where
  "num_lt (Fin a) (Fin b) = (a < b)"
| "num_lt NaN y = False"
| "num_lt x NaN = False"
| "num_lt PInf y = False"
| "num_lt x NInf = False"
| "num_lt x y = True"

definition num_ge :: "number \<Rightarrow> number \<Rightarrow> bool" where
  "num_ge x y = num_le y x"

definition num_gt :: "number \<Rightarrow> number \<Rightarrow> bool" where
  "num_gt x y = num_lt y x"

section \<open>Statistics (aiops.ts)\<close>

record Stats =
  mean :: number
  std :: number

text \<open>\<open>values.reduce((a, b) => a + b, 0)\<close> is a left fold.\<close>

definition reduce_sum_in :: "(real \<Rightarrow> number) \<Rightarrow> real list \<Rightarrow> number" where
  "reduce_sum_in r values = foldl (\<lambda>a b. num_add r a (Fin b)) (Fin 0) values"

text \<open>\<open>meanStd\<close> with the rounding \<open>r\<close>; a length is a number without rounding.\<close>

definition meanStd_in :: "(real \<Rightarrow> number) \<Rightarrow> real list \<Rightarrow> Stats" where
  "meanStd_in r values =
     (if length values = 0 then \<lparr>mean = Fin 0, std = Fin 0\<rparr>
      else
        let m = num_div r (reduce_sum_in r values) (Fin (real (length values)));
            v = foldl (\<lambda>v x. num_add r v (num_mul r (num_sub r (Fin x) m) (num_sub r (Fin x) m)))
                  (Fin 0) values;
            v' = num_div r v (Fin (real (length values)))
        in \<lparr>mean = m, std = num_sqrt r v'\<rparr>)"

text \<open>\<open>meanStd\<close> of the source: the arithmetic is that of doubles.\<close>

definition meanStd :: "real list \<Rightarrow> Stats" where
  "meanStd values = meanStd_in rd values"

section \<open>AnomalyDetector\<close>

record AnomalyDetector =
  window :: "MetricsSample list"
  lastLeakAtMs :: real
  lastSpikeAtMs :: "AiEventType \<rightharpoonup> real"

definition window_max :: nat where
  "window_max = 120"

definition new_AnomalyDetector :: AnomalyDetector where
  "new_AnomalyDetector = \<lparr>window = [], lastLeakAtMs = 0, lastSpikeAtMs = Map.empty\<rparr>"

text \<open>\<open>while (this.window.length > this.max) this.window.shift()\<close>\<close>

function shift_while :: "nat \<Rightarrow> 'a list \<Rightarrow> 'a list" where
  "shift_while mx w = (if length w > mx then shift_while mx (tl w) else w)"
  by pat_completeness auto
termination
  by (relation "measure (\<lambda>(mx, w). length w)") auto

declare shift_while.simps [simp del]

definition push :: "MetricsSample \<Rightarrow> AnomalyDetector \<Rightarrow> AnomalyDetector" where
  "push m d = d\<lparr>window := shift_while window_max (window d @ [m])\<rparr>"

text \<open>A detector after a sequence of \<open>push\<close> calls, oldest call first.\<close>

definition push_all :: "MetricsSample list \<Rightarrow> AnomalyDetector \<Rightarrow> AnomalyDetector" where
  "push_all ms d = foldl (\<lambda>d m. push m d) d ms"

text \<open>
  \<open>cooldown\<close> and \<open>mark\<close> are the two closures of \<open>detect\<close>; \<open>now\<close> is the reading
  of \<open>Date.now()\<close> at the start of \<open>detect\<close>.
\<close>

definition cooldown :: "AnomalyDetector \<Rightarrow> real \<Rightarrow> AiEventType \<Rightarrow> real \<Rightarrow> bool" where
  "cooldown d now t ms =
     (now - (case lastSpikeAtMs d t of None \<Rightarrow> 0 | Some v \<Rightarrow> v) < ms)"

definition mark :: "AnomalyDetector \<Rightarrow> real \<Rightarrow> AiEventType \<Rightarrow> AnomalyDetector" where
  "mark d now t = d\<lparr>lastSpikeAtMs := (lastSpikeAtMs d)(t \<mapsto> now)\<rparr>"

text \<open>
  Every rule of \<open>detect\<close> has the shape
  \<open>if (cond && !cooldown(t, ms)) { mark(t); out.push(ev) }\<close>.
\<close>

definition fire ::
  "bool \<Rightarrow> AiEventType \<Rightarrow> real \<Rightarrow> real \<Rightarrow> AiEvent \<Rightarrow>
   AnomalyDetector \<times> AiEvent list \<Rightarrow> AnomalyDetector \<times> AiEvent list" where
  "fire cond t ms now ev acc =
     (case acc of (d, out) \<Rightarrow>
        if cond \<and> \<not> cooldown d now t ms then (mark d now t, out @ [ev]) else (d, out))"

definition spike_event ::
  "AiEventType \<Rightarrow> AiSeverity \<Rightarrow> string \<Rightarrow> MetricsSample \<Rightarrow> AiAction list \<Rightarrow> AiEvent" where
  "spike_event t sev origin lst acts =
     \<lparr>ev_type = t, severity = sev, ev_source = origin, metrics = Some lst,
      actions = Some acts, executed = None\<rparr>"

definition cpu_actions :: "AiAction list" where
  "cpu_actions = [enable_rate_limit ''cpu_spike'' (Some 30),
                  load_balance_hint ''review traffic distribution / scale-out'']"

definition ram_actions :: "AiAction list" where
  "ram_actions = [enable_rate_limit ''ram_spike'' (Some 30),
                  load_balance_hint ''check memory leak / processes'']"

definition io_actions :: "AiAction list" where
  "io_actions = [enable_rate_limit ''io_spike'' (Some 20)]"

definition disk_actions :: "AiAction list" where
  "disk_actions = [load_balance_hint ''clean logs/cache or grow the volume'']"

definition leak_actions :: "AiAction list" where
  "leak_actions = [enable_rate_limit ''ram_leak'' (Some 45),
                   load_balance_hint ''review process restart / deploy rollback'']"

text \<open>\<open>xs.slice(-k)\<close>: the last \<open>k\<close> elements, all of them when there are fewer.\<close>

definition slice_last :: "nat \<Rightarrow> 'a list \<Rightarrow> 'a list" where
  "slice_last k xs = drop (length xs - k) xs"

text \<open>
  The closure \<open>z\<close> of \<open>detect\<close>; the literal \<open>0.001\<close> is the double nearest to it.
\<close>

definition z :: "real \<Rightarrow> Stats \<Rightarrow> number" where
  "z x s = (if num_gt (std s) (rd 0.001) then num_div rd (num_sub rd (Fin x) (mean s)) (std s)
            else if num_ge (Fin x) (num_add rd (mean s) (Fin 5)) then Fin 999 else Fin 0)"

text \<open>
  The loop of \<open>detectRamLeak\<close> that accumulates \<open>num\<close> and \<open>den\<close> over
  \<open>i = 0 .. n - 1\<close>, with the rounding \<open>r\<close>.
\<close>

definition leak_sums_in ::
  "(real \<Rightarrow> number) \<Rightarrow> real list \<Rightarrow> real list \<Rightarrow> number \<Rightarrow> number \<Rightarrow> nat \<Rightarrow> number \<times> number" where
  "leak_sums_in r xs ys xMean yMean n =
     foldl (\<lambda>(num, den) i.
              (num_add r num
                 (num_mul r (num_sub r (Fin (xs ! i)) xMean) (num_sub r (Fin (ys ! i)) yMean)),
               num_add r den
                 (num_mul r (num_sub r (Fin (xs ! i)) xMean) (num_sub r (Fin (xs ! i)) xMean))))
           (Fin 0, Fin 0) [0..<n]"

definition leak_slope_in :: "(real \<Rightarrow> number) \<Rightarrow> real list \<Rightarrow> number" where
  "leak_slope_in r ys =
     (let xs = map real [0..<length ys];
          n = length ys;
          xMean = num_div r (reduce_sum_in r xs) (Fin (real n));
          yMean = num_div r (reduce_sum_in r ys) (Fin (real n));
          (num, den) = leak_sums_in r xs ys xMean yMean n
      in if num_gt den (Fin 0) then num_div r num den else Fin 0)"

text \<open>The slope as the source computes it, in doubles.\<close>

definition leak_slope :: "real list \<Rightarrow> number" where
  "leak_slope ys = leak_slope_in rd ys"

definition leak_event :: "MetricsSample \<Rightarrow> real \<Rightarrow> AiEvent" where
  "leak_event lst latest =
     \<lparr>ev_type = ram_leak,
      severity = (if latest \<ge> 92 then critical else warn),
      ev_source = (case source lst of None \<Rightarrow> ''unknown'' | Some s \<Rightarrow> s),
      metrics = Some lst, actions = Some leak_actions, executed = None\<rparr>"

text \<open>
  \<open>detectRamLeak\<close> reads the clock itself; \<open>now\<close> is that reading. All indexing is
  behind the check \<open>series.length < 25\<close>, so it is in range. The literal \<open>0.22\<close> is the
  double nearest to it.
\<close>

definition detectRamLeak :: "real \<Rightarrow> AnomalyDetector \<Rightarrow> AiEvent option \<times> AnomalyDetector" where
  "detectRamLeak now d =
     (if now - lastLeakAtMs d < 20000 then (None, d)
      else
        let series = slice_last 25 (window d) in
        if length series < 25 then (None, d)
        else
          let ys = map ram series;
              slope = leak_slope ys;
              rise = num_sub rd (Fin (ys ! (length ys - 1))) (Fin (ys ! 0))
          in if ys ! (length ys - 1) \<ge> 80 \<and> num_ge rise (Fin 8) \<and> num_ge slope (rd 0.22)
             then (Some (leak_event (series ! (length series - 1)) (ys ! (length ys - 1))),
                   d\<lparr>lastLeakAtMs := now\<rparr>)
             else (None, d))"

text \<open>The absolute-threshold rules, lines 99 to 159, in the order of the source.\<close>

definition absolute_layer ::
  "string \<Rightarrow> real \<Rightarrow> MetricsSample \<Rightarrow> AnomalyDetector \<times> AiEvent list \<Rightarrow>
   AnomalyDetector \<times> AiEvent list" where
  "absolute_layer origin now lst acc =
     (let acc1 = fire (cpu lst \<ge> 95) cpu_spike 15000 now
                   (spike_event cpu_spike critical origin lst cpu_actions) acc;
          acc2 = fire (ram lst \<ge> 95) ram_spike 15000 now
                   (spike_event ram_spike critical origin lst ram_actions) acc1;
          acc3 = fire (io lst \<ge> 95) io_spike 12000 now
                   (spike_event io_spike critical origin lst io_actions) acc2
      in fire (disk lst \<ge> 90) disk_full 30000 now
           (spike_event disk_full (if disk lst \<ge> 97 then critical else warn) origin lst
              disk_actions) acc3)"

text \<open>
  The statistical rules, lines 164 to 223; the literals \<open>2.8\<close> and \<open>2.6\<close> are the
  doubles nearest to them.
\<close>

definition statistical_layer ::
  "string \<Rightarrow> real \<Rightarrow> MetricsSample \<Rightarrow> MetricsSample list \<Rightarrow>
   AnomalyDetector \<times> AiEvent list \<Rightarrow> AnomalyDetector \<times> AiEvent list" where
  "statistical_layer origin now lst baseline acc =
     (let cpuS = meanStd (map cpu baseline);
          ramS = meanStd (map ram baseline);
          ioS = meanStd (map io baseline);
          cpuZ = z (cpu lst) cpuS;
          acc1 = fire (cpu lst < 95 \<and> cpu lst \<ge> 85 \<and> num_ge cpuZ (rd 2.8)) cpu_spike 15000 now
                   (spike_event cpu_spike (if cpu lst \<ge> 95 then critical else warn) origin lst
                      cpu_actions) acc;
          ramZ = z (ram lst) ramS;
          acc2 = fire (ram lst < 95 \<and> ram lst \<ge> 85 \<and> num_ge ramZ (rd 2.8)) ram_spike 15000 now
                   (spike_event ram_spike (if ram lst \<ge> 95 then critical else warn) origin lst
                      ram_actions) acc1;
          ioZ = z (io lst) ioS
      in fire (io lst < 95 \<and> io lst \<ge> 85 \<and> num_ge ioZ (rd 2.6)) io_spike 12000 now
           (spike_event io_spike (if io lst \<ge> 95 then critical else warn) origin lst
              io_actions) acc2)"

definition baseline_of :: "MetricsSample list \<Rightarrow> MetricsSample list" where
  "baseline_of w =
     (let recent = slice_last 60 w
      in if length recent \<ge> 2 then butlast recent else recent)"

text \<open>
  \<open>detect(source)\<close> returns the events and the detector it leaves behind. \<open>now\<close> is the
  clock reading of \<open>detect\<close>, \<open>leakNow\<close> the one of \<open>detectRamLeak\<close>. \<open>last\<close> is read
  behind the check \<open>this.window.length < 1\<close>.
\<close>

definition detect ::
  "string \<Rightarrow> real \<Rightarrow> real \<Rightarrow> AnomalyDetector \<Rightarrow> AiEvent list \<times> AnomalyDetector" where
  "detect origin now leakNow d =
     (if length (window d) < 1 then ([], d)
      else
        let lst = last (window d);
            baseline = baseline_of (window d);
            acc = absolute_layer origin now lst (d, [])
        in if length (window d) < 8 then (snd acc, fst acc)
           else
             (case statistical_layer origin now lst baseline acc of
                (d', out) \<Rightarrow>
                  (case detectRamLeak leakNow d' of
                     (None, d'') \<Rightarrow> (out, d'')
                   | (Some leak, d'') \<Rightarrow> (out @ [leak], d''))))"

section \<open>SelfHealing\<close>

record SelfHealing =
  cfg :: SelfHealConfig
  rateLimitUntilMs :: real
  isolated :: bool

text \<open>\<open>Partial<SelfHealConfig>\<close>: every field may be absent.\<close>

record PartialConfig =
  p_enabled :: "bool option"
  p_mode :: "Mode option"
  p_rateLimitSeconds :: "real option"

definition new_SelfHealing :: "PartialConfig option \<Rightarrow> SelfHealing" where
  "new_SelfHealing c =
     \<lparr>cfg = \<lparr>enabled = (case Option.bind c p_enabled of None \<Rightarrow> False | Some b \<Rightarrow> b),
             mode = (case Option.bind c p_mode of None \<Rightarrow> dry_run | Some m \<Rightarrow> m),
             rateLimitSeconds =
               (case Option.bind c p_rateLimitSeconds of None \<Rightarrow> 30 | Some r \<Rightarrow> r)\<rparr>,
      rateLimitUntilMs = 0, isolated = False\<rparr>"

definition getConfig :: "SelfHealing \<Rightarrow> SelfHealConfig" where
  "getConfig sh = cfg sh"

text \<open>
  Every number of the model is finite, so \<open>Number.isFinite\<close> holds of every provided
  \<open>rateLimitSeconds\<close>.
\<close>

definition setConfig :: "PartialConfig \<Rightarrow> SelfHealing \<Rightarrow> SelfHealing" where
  "setConfig next sh =
     (let c1 = (case p_enabled next of None \<Rightarrow> cfg sh | Some b \<Rightarrow> (cfg sh)\<lparr>enabled := b\<rparr>);
          c2 = (case p_mode next of None \<Rightarrow> c1 | Some m \<Rightarrow> c1\<lparr>mode := m\<rparr>);
          c3 = (case p_rateLimitSeconds next of None \<Rightarrow> c2
                | Some r \<Rightarrow> c2\<lparr>rateLimitSeconds := clamp r 5 300\<rparr>)
      in sh\<lparr>cfg := c3\<rparr>)"

definition isRateLimited :: "real \<Rightarrow> SelfHealing \<Rightarrow> bool" where
  "isRateLimited now sh = (now < rateLimitUntilMs sh)"

definition isIsolated :: "SelfHealing \<Rightarrow> bool" where
  "isIsolated sh = isolated sh"

text \<open>
  The body of the loop over the actions of one event. \<open>now\<close> is the reading of
  \<open>Date.now()\<close>; one call of \<open>apply\<close> is synchronous and the model gives all its
  readings the same value.
\<close>

definition apply_action ::
  "real \<Rightarrow> SelfHealing \<times> AiAction list \<Rightarrow> AiAction \<Rightarrow> SelfHealing \<times> AiAction list" where
  "apply_action now acc a =
     (case acc of (sh, ex) \<Rightarrow>
        if mode (cfg sh) = dry_run then (sh, ex @ [a])
        else
          (case a of
             enable_rate_limit r secs \<Rightarrow>
               let sec = clamp (case secs of None \<Rightarrow> rateLimitSeconds (cfg sh) | Some s \<Rightarrow> s)
                           5 300
               in (sh\<lparr>rateLimitUntilMs := max (rateLimitUntilMs sh) (now + sec * 1000)\<rparr>,
                   ex @ [a])
           | isolate_node r \<Rightarrow> (sh\<lparr>isolated := True\<rparr>, ex @ [a])
           | _ \<Rightarrow> (sh, ex @ [load_balance_hint ''not executable (for explanation)''])))"

definition apply_event ::
  "real \<Rightarrow> SelfHealing \<times> AiEvent list \<Rightarrow> AiEvent \<Rightarrow> SelfHealing \<times> AiEvent list" where
  "apply_event now acc ev =
     (case acc of (sh, enriched) \<Rightarrow>
        let acts = (case actions ev of None \<Rightarrow> [] | Some as \<Rightarrow> as) in
        if length acts = 0 then (sh, enriched @ [ev])
        else
          (case foldl (apply_action now) (sh, []) acts of
             (sh', ex) \<Rightarrow>
               (sh', enriched @ [ev\<lparr>executed := Some (mode (cfg sh'), ex)\<rparr>])))"

definition apply_events :: "real \<Rightarrow> AiEvent list \<Rightarrow> SelfHealing \<Rightarrow> AiEvent list \<times> SelfHealing" where
  "apply_events now events sh =
     (if \<not> enabled (cfg sh) then (events, sh)
      else (case foldl (apply_event now) (sh, []) events of
              (sh', enriched) \<Rightarrow> (enriched, sh')))"

section \<open>Session loop (server.ts)\<close>

datatype Source = local | monitor

datatype Level = level_info | level_error

text \<open>
  The texts of the status messages, by what they say; \<open>collect_failed n e\<close> is the
  message that carries the streak count \<open>n\<close> and the text \<open>e\<close> of the caught error.
\<close>

datatype StatusText =
    node_isolated_paused
  | monitor_url_invalid
  | collect_failed nat string
  | fallback_to_local

datatype OpsWsMsg =
    status_msg Level StatusText
  | metrics_msg MetricsSample
  | ai_msg AiEvent
  | selfheal_msg bool Mode bool bool

record Session =
  src :: Source
  monitorUrl :: string
  errorStreak :: nat
  detector :: AnomalyDetector

text \<open>The clock readings of one tick, in the order they are taken.\<close>

record TickClock =
  t_detect :: real
  t_leak :: real
  t_apply :: real
  t_snapshot :: real

definition policy_snapshot :: "real \<Rightarrow> SelfHealing \<Rightarrow> OpsWsMsg" where
  "policy_snapshot now sh =
     selfheal_msg (enabled (getConfig sh)) (mode (getConfig sh)) (isRateLimited now sh)
       (isIsolated sh)"

text \<open>The statements after a successful \<open>await\<close>; \<open>dflt\<close> is the default of \<open>m.source\<close>.\<close>

definition on_collected ::
  "string \<Rightarrow> MetricsSample \<Rightarrow> TickClock \<Rightarrow> Session \<Rightarrow> SelfHealing \<Rightarrow>
   OpsWsMsg list \<times> Session \<times> SelfHealing" where
  "on_collected dflt m clk se sh =
     (let d1 = push m (detector se);
          (events, d2) = detect (case source m of None \<Rightarrow> dflt | Some s \<Rightarrow> s)
                           (t_detect clk) (t_leak clk) d1;
          (applied, sh') = apply_events (t_apply clk) events sh
      in ([metrics_msg m] @ map ai_msg applied @
          (if length events > 0 then [policy_snapshot (t_snapshot clk) sh'] else []),
          se\<lparr>errorStreak := 0, detector := d2\<rparr>, sh'))"

definition unreachable_event :: AiEvent where
  "unreachable_event =
     \<lparr>ev_type = agent_unreachable, severity = warn, ev_source = ''monitor'',
      metrics = None, actions = None, executed = None\<rparr>"

text \<open>The \<open>catch\<close> block of \<open>tick\<close>; \<open>e\<close> is the text of the caught error.\<close>

definition on_failure ::
  "string \<Rightarrow> Session \<Rightarrow> SelfHealing \<Rightarrow> OpsWsMsg list \<times> Session \<times> SelfHealing" where
  "on_failure e se sh =
     (let n = errorStreak se + 1;
          m1 = [status_msg level_error (collect_failed n e)]
      in if src se = monitor \<and> n \<ge> 3
         then (m1 @ [status_msg level_error fallback_to_local, ai_msg unreachable_event],
               se\<lparr>src := local, errorStreak := 0\<rparr>, sh)
         else (m1, se\<lparr>errorStreak := n\<rparr>, sh))"

text \<open>
  One tick. \<open>isValidHttpUrl\<close> parses with the platform's \<open>URL\<close> class and is a
  parameter. \<open>collected\<close> is what the awaited collector gives: \<open>Inl e\<close> when it throws,
  \<open>Inr m\<close> when it returns the sample \<open>m\<close> (\<open>Metrics\<close> of server.ts has the fields of
  \<open>MetricsSample\<close> and is cast to it). The result is the messages handed to \<open>send\<close>, in
  order, and the session and the shared controller after the tick; \<open>send\<close> itself
  delivers a message only while the socket is open.
\<close>

definition tick ::
  "(string \<Rightarrow> bool) \<Rightarrow> string + MetricsSample \<Rightarrow> TickClock \<Rightarrow> Session \<times> SelfHealing \<Rightarrow>
   OpsWsMsg list \<times> Session \<times> SelfHealing" where
  "tick isValidHttpUrl collected clk st =
     (case st of (se, sh) \<Rightarrow>
        if isIsolated sh then ([status_msg level_error node_isolated_paused], se, sh)
        else if src se = monitor then
          (if monitorUrl se = [] \<or> \<not> isValidHttpUrl (monitorUrl se)
           then ([status_msg level_error monitor_url_invalid],
                 se\<lparr>src := local, errorStreak := 0\<rparr>, sh)
           else (case collected of
                   Inl e \<Rightarrow> on_failure e se sh
                 | Inr m \<Rightarrow> on_collected ''monitor'' m clk se sh))
        else (case collected of
                Inl e \<Rightarrow> on_failure e se sh
              | Inr m \<Rightarrow> on_collected ''local'' m clk se sh))"

text \<open>
  Consecutive ticks of one session: each element is the outcome of that tick's
  collection and its clock readings. The messages of all ticks are concatenated.
\<close>

fun ticks ::
  "(string \<Rightarrow> bool) \<Rightarrow> ((string + MetricsSample) \<times> TickClock) list \<Rightarrow> Session \<times> SelfHealing \<Rightarrow>
   OpsWsMsg list \<times> Session \<times> SelfHealing" where
  "ticks v [] st = ([], st)"
| "ticks v ((c, clk) # rest) st =
     (case tick v c clk st of
        (msgs, st') \<Rightarrow> (case ticks v rest st' of (msgs', st'') \<Rightarrow> (msgs @ msgs', st'')))"

section \<open>Notions of the specification and of the proofs\<close>

text \<open>The events one rule of \<open>detect\<close> adds to \<open>out\<close>: none or one.\<close>

definition fires ::
  "bool \<Rightarrow> AnomalyDetector \<Rightarrow> real \<Rightarrow> AiEventType \<Rightarrow> real \<Rightarrow> AiEvent \<Rightarrow> AiEvent list" where
  "fires c d now t ms ev = (if c \<and> \<not> cooldown d now t ms then [ev] else [])"

text \<open>The events \<open>detectRamLeak\<close> adds: none or one.\<close>

definition leak_events :: "real \<Rightarrow> AnomalyDetector \<Rightarrow> AiEvent list" where
  "leak_events now d = (case fst (detectRamLeak now d) of None \<Rightarrow> [] | Some e \<Rightarrow> [e])"

text \<open>
  The slope of the ordinary least-squares line through the points \<open>(i, ys ! i)\<close>, as the
  specification names it: covariance of index and value over the variance of the index.
  It is compared with \<open>leak_slope\<close>, the computation of the source.
\<close>

definition ols_slope :: "real list \<Rightarrow> real" where
  "ols_slope ys =
     (let n = length ys;
          xbar = (\<Sum>i<n. real i) / real n;
          ybar = (\<Sum>i<n. ys ! i) / real n
      in (\<Sum>i<n. (real i - xbar) * (ys ! i - ybar)) / (\<Sum>i<n. (real i - xbar)\<^sup>2))"

text \<open>
  Whether the z-score of \<open>x\<close> against the statistics \<open>s\<close> meets the threshold \<open>thr\<close>, in
  the words of the specification: the quotient when \<open>std > 0.001\<close>, and on a degenerate
  baseline saturated when \<open>x\<close> exceeds \<open>mean + 5\<close>. The arithmetic and the literals are
  those of doubles.
\<close>

definition zscore_meets_claimed :: "real \<Rightarrow> Stats \<Rightarrow> real \<Rightarrow> bool" where
  "zscore_meets_claimed x s thr =
     (if num_gt (std s) (rd 0.001)
      then num_ge (num_div rd (num_sub rd (Fin x) (mean s)) (std s)) (rd thr)
      else num_gt (Fin x) (num_add rd (mean s) (Fin 5)))"

text \<open>The same with saturation when \<open>x\<close> is at least \<open>mean + 5\<close>, as \<open>z\<close> of the source has it.\<close>

definition zscore_meets :: "real \<Rightarrow> Stats \<Rightarrow> real \<Rightarrow> bool" where
  "zscore_meets x s thr =
     (if num_gt (std s) (rd 0.001)
      then num_ge (num_div rd (num_sub rd (Fin x) (mean s)) (std s)) (rd thr)
      else num_ge (Fin x) (num_add rd (mean s) (Fin 5)))"

text \<open>The mean and the population standard deviation of a list, in exact arithmetic.\<close>

definition mean_of :: "real list \<Rightarrow> real" where
  "mean_of xs = sum_list xs / real (length xs)"

definition std_of :: "real list \<Rightarrow> real" where
  "std_of xs = sqrt (sum_list (map (\<lambda>x. (x - mean_of xs) * (x - mean_of xs)) xs) / real (length xs))"

text \<open>
  What the specification says of an event in dry-run mode: its proposed actions, when
  there are any, are recorded as executed.
\<close>

definition dry_record :: "AiEvent \<Rightarrow> AiEvent" where
  "dry_record ev =
     (case actions ev of
        None \<Rightarrow> ev
      | Some as \<Rightarrow> if as = [] then ev else ev\<lparr>executed := Some (dry_run, as)\<rparr>)"

text \<open>Whether a message is a policy snapshot.\<close>

definition is_snapshot :: "OpsWsMsg \<Rightarrow> bool" where
  "is_snapshot m = (case m of selfheal_msg en mo rl il \<Rightarrow> True | _ \<Rightarrow> False)"

section \<open>Sample inputs\<close>

definition sample :: "real \<Rightarrow> real \<Rightarrow> real \<Rightarrow> real \<Rightarrow> MetricsSample" where
  "sample c r dk i =
     \<lparr>cpu = c, ram = r, disk = dk, io = i, errors = 0, updatedAt = ''t'',
      source = Some ''local''\<rparr>"

definition full_detector :: AnomalyDetector where
  "full_detector =
     \<lparr>window = sample 1 0 0 0 # replicate 119 (sample 2 0 0 0), lastLeakAtMs = 0,
      lastSpikeAtMs = Map.empty\<rparr>"

text \<open>The double nearest to \<open>x\<close>, for an \<open>x\<close> in the range of doubles.\<close>

definition dbl :: "real \<Rightarrow> real" where
  "dbl x = (case rd x of Fin y \<Rightarrow> y | _ \<Rightarrow> 0)"

text \<open>
  25 RAM readings that rise linearly from 70 to 90: the doubles nearest to
  \<open>70 + 20 i / 24\<close>.
\<close>

definition ramp_readings :: "real list" where
  "ramp_readings = map (\<lambda>i. dbl (70 + 20 * real i / 24)) [0..<25]"

definition ramp_samples :: "MetricsSample list" where
  "ramp_samples = map (\<lambda>r. sample 20 r 20 20) ramp_readings"

text \<open>
  25 whole RAM readings from 76 to 84 whose least-squares slope is exactly \<open>11 / 50\<close>.
\<close>

definition slow_leak_readings :: "real list" where
  "slow_leak_readings =
     [76, 77, 78, 79, 80, 80, 80, 80, 80, 80, 80, 80, 81, 81, 81, 81, 81, 81, 81, 81, 81,
      82, 83, 84, 84]"

definition slow_leak_detector :: AnomalyDetector where
  "slow_leak_detector =
     \<lparr>window = map (\<lambda>r. sample 20 r 20 20) slow_leak_readings, lastLeakAtMs = 0,
      lastSpikeAtMs = Map.empty\<rparr>"

text \<open>Seven samples with cpu 80 and an eighth with cpu 85.\<close>

definition flat_detector :: AnomalyDetector where
  "flat_detector =
     \<lparr>window = [sample 80 20 20 20, sample 80 20 20 20, sample 80 20 20 20, sample 80 20 20 20,
                sample 80 20 20 20, sample 80 20 20 20, sample 80 20 20 20, sample 85 20 20 20],
      lastLeakAtMs = 0, lastSpikeAtMs = Map.empty\<rparr>"

text \<open>Seven samples with cpu around 40 (mean 40, deviation 2) and an eighth with cpu 90.\<close>

definition clustered_detector :: AnomalyDetector where
  "clustered_detector =
     \<lparr>window = [sample 43 20 20 20, sample 37 20 20 20, sample 41 20 20 20, sample 39 20 20 20,
                sample 42 20 20 20, sample 38 20 20 20, sample 40 20 20 20, sample 90 20 20 20],
      lastLeakAtMs = 0, lastSpikeAtMs = Map.empty\<rparr>"

definition armed_controller :: SelfHealing where
  "armed_controller =
     \<lparr>cfg = \<lparr>enabled = True, mode = armed, rateLimitSeconds = 30\<rparr>,
      rateLimitUntilMs = 0, isolated = False\<rparr>"

definition dry_controller :: SelfHealing where
  "dry_controller =
     \<lparr>cfg = \<lparr>enabled = True, mode = dry_run, rateLimitSeconds = 30\<rparr>,
      rateLimitUntilMs = 0, isolated = False\<rparr>"

definition action_event :: "AiAction list \<Rightarrow> AiEvent" where
  "action_event acts =
     \<lparr>ev_type = cpu_spike, severity = critical, ev_source = ''local'', metrics = None,
      actions = Some acts, executed = None\<rparr>"

definition monitor_session :: Session where
  "monitor_session =
     \<lparr>src = monitor, monitorUrl = ''http://10.0.0.5/monitor'', errorStreak = 0,
      detector = new_AnomalyDetector\<rparr>"

definition local_session :: Session where
  "local_session =
     \<lparr>src = local, monitorUrl = [], errorStreak = 0, detector = new_AnomalyDetector\<rparr>"

definition clock_at :: "real \<Rightarrow> TickClock" where
  "clock_at t = \<lparr>t_detect = t, t_leak = t, t_apply = t, t_snapshot = t\<rparr>"

definition hot_sample :: MetricsSample where
  "hot_sample = sample 96 20 20 20"

text \<open>An initial configuration as \<open>SELF_HEAL_RATE_LIMIT_SECONDS=1000\<close> gives it.\<close>

definition oversized_config :: PartialConfig where
  "oversized_config =
     \<lparr>p_enabled = Some False, p_mode = Some dry_run, p_rateLimitSeconds = Some 1000\<rparr>"

section \<open>Ring buffer\<close>

lemma shift_while_le: "length w \<le> mx \<Longrightarrow> shift_while mx w = w"
  by (simp add: shift_while.simps)

lemma shift_while_drop: "shift_while mx w = drop (length w - mx) w"
proof (induction mx w rule: shift_while.induct)
  case (1 mx w)
  show ?case
  proof (cases "length w > mx")
    case True
    then have ne: "w \<noteq> []" by auto
    have "shift_while mx w = shift_while mx (tl w)"
      using True by (subst shift_while.simps) simp
    also have "\<dots> = drop (length (tl w) - mx) (tl w)"
      using "1.IH" True by simp
    also have "\<dots> = drop (Suc (length (tl w) - mx)) w"
      using ne by (cases w) simp_all
    also have "Suc (length (tl w) - mx) = length w - mx"
      using True ne by (cases w) auto
    finally show ?thesis .
  next
    case False
    then show ?thesis by (simp add: shift_while.simps)
  qed
qed

lemma push_window: "window (push m d) = drop (Suc (length (window d)) - window_max) (window d @ [m])"
  by (simp add: push_def shift_while_drop)

lemma push_length: "length (window (push m d)) \<le> window_max"
  by (simp add: push_window)

lemma push_all_snoc: "push_all (ms @ [m]) d = push m (push_all ms d)"
  by (simp add: push_all_def)

lemma push_all_length:
  "length (window d) \<le> window_max \<Longrightarrow> length (window (push_all ms d)) \<le> window_max"
  by (induction ms rule: rev_induct) (simp_all add: push_all_snoc push_length, simp add: push_all_def)

text \<open>
  C1. After any sequence of \<open>push\<close> calls on a new detector the history holds at most 120
  samples, and a \<open>push\<close> on a history of exactly 120 samples drops the oldest sample,
  keeps the other 119 in their order and puts the new sample last.
\<close>

theorem C1_window_bounded_evicts_oldest:
  "length (window (push_all ms new_AnomalyDetector)) \<le> 120 \<and>
   (length (window d) = 120 \<longrightarrow> window (push m d) = tl (window d) @ [m])"
proof
  have "length (window (push_all ms new_AnomalyDetector)) \<le> window_max"
    by (rule push_all_length) (simp add: new_AnomalyDetector_def)
  then show "length (window (push_all ms new_AnomalyDetector)) \<le> 120"
    by (simp add: window_max_def)
next
  show "length (window d) = 120 \<longrightarrow> window (push m d) = tl (window d) @ [m]"
  proof
    assume len: "length (window d) = 120"
    then have ne: "window d \<noteq> []" by auto
    have "window (push m d) = drop 1 (window d @ [m])"
      using len by (simp add: push_window window_max_def)
    also have "\<dots> = tl (window d) @ [m]"
      using ne by (cases "window d") simp_all
    finally show "window (push m d) = tl (window d) @ [m]" .
  qed
qed


theorem C1_window_bounded_evicts_oldest_witness:
  "length (window full_detector) = 120 \<and>
   window (push (sample 3 0 0 0) full_detector) = replicate 119 (sample 2 0 0 0) @ [sample 3 0 0 0] \<and>
   length (window (push_all [sample 1 0 0 0, sample 2 0 0 0] new_AnomalyDetector)) \<le> 120"
  using C1_window_bounded_evicts_oldest [of "[sample 1 0 0 0, sample 2 0 0 0]" full_detector "sample 3 0 0 0"]
  by (simp add: full_detector_def)

section \<open>The rules of detect\<close>

lemma cooldown_cong:
  "lastSpikeAtMs d t = lastSpikeAtMs d' t \<Longrightarrow> cooldown d now t ms = cooldown d' now t ms"
  by (simp add: cooldown_def)

lemma fire_pair:
  "fire c t ms now ev (d, out) =
     (if c \<and> \<not> cooldown d now t ms then (mark d now t, out @ [ev]) else (d, out))"
  by (simp add: fire_def)

lemma mark_fields [simp]:
  "window (mark d now t) = window d"
  "lastLeakAtMs (mark d now t) = lastLeakAtMs d"
  "lastSpikeAtMs (mark d now t) t' = (if t' = t then Some now else lastSpikeAtMs d t')"
  by (simp_all add: mark_def)

lemma cooldown_mark_other [simp]:
  "t' \<noteq> t \<Longrightarrow> cooldown (mark d now t) now' t' ms = cooldown d now' t' ms"
  by (simp add: cooldown_def)

lemma absolute_layer_out:
  "snd (absolute_layer origin now lst (d, out)) =
     out @ fires (cpu lst \<ge> 95) d now cpu_spike 15000 (spike_event cpu_spike critical origin lst cpu_actions)
         @ fires (ram lst \<ge> 95) d now ram_spike 15000 (spike_event ram_spike critical origin lst ram_actions)
         @ fires (io lst \<ge> 95) d now io_spike 12000 (spike_event io_spike critical origin lst io_actions)
         @ fires (disk lst \<ge> 90) d now disk_full 30000
             (spike_event disk_full (if disk lst \<ge> 97 then critical else warn) origin lst disk_actions)"
  by (simp add: absolute_layer_def fire_pair fires_def Let_def)

lemma absolute_layer_fst:
  "window (fst (absolute_layer origin now lst (d, out))) = window d"
  "lastLeakAtMs (fst (absolute_layer origin now lst (d, out))) = lastLeakAtMs d"
  "lastSpikeAtMs (fst (absolute_layer origin now lst (d, out))) cpu_spike =
     (if cpu lst \<ge> 95 \<and> \<not> cooldown d now cpu_spike 15000 then Some now else lastSpikeAtMs d cpu_spike)"
  "lastSpikeAtMs (fst (absolute_layer origin now lst (d, out))) ram_spike =
     (if ram lst \<ge> 95 \<and> \<not> cooldown d now ram_spike 15000 then Some now else lastSpikeAtMs d ram_spike)"
  "lastSpikeAtMs (fst (absolute_layer origin now lst (d, out))) io_spike =
     (if io lst \<ge> 95 \<and> \<not> cooldown d now io_spike 12000 then Some now else lastSpikeAtMs d io_spike)"
  by (simp_all add: absolute_layer_def fire_pair Let_def)

lemma statistical_layer_out:
  "snd (statistical_layer origin now lst baseline (d, out)) =
     out @ fires (cpu lst < 95 \<and> cpu lst \<ge> 85 \<and> num_ge (z (cpu lst) (meanStd (map cpu baseline))) (rd 2.8))
              d now cpu_spike 15000
              (spike_event cpu_spike (if cpu lst \<ge> 95 then critical else warn) origin lst cpu_actions)
         @ fires (ram lst < 95 \<and> ram lst \<ge> 85 \<and> num_ge (z (ram lst) (meanStd (map ram baseline))) (rd 2.8))
              d now ram_spike 15000
              (spike_event ram_spike (if ram lst \<ge> 95 then critical else warn) origin lst ram_actions)
         @ fires (io lst < 95 \<and> io lst \<ge> 85 \<and> num_ge (z (io lst) (meanStd (map io baseline))) (rd 2.6))
              d now io_spike 12000
              (spike_event io_spike (if io lst \<ge> 95 then critical else warn) origin lst io_actions)"
  by (simp add: statistical_layer_def fire_pair fires_def Let_def)

lemma statistical_layer_fst:
  "window (fst (statistical_layer origin now lst baseline (d, out))) = window d"
  "lastLeakAtMs (fst (statistical_layer origin now lst baseline (d, out))) = lastLeakAtMs d"
  by (simp_all add: statistical_layer_def fire_pair Let_def)

lemma detectRamLeak_cong:
  "window d' = window d \<Longrightarrow> lastLeakAtMs d' = lastLeakAtMs d \<Longrightarrow>
   fst (detectRamLeak now d') = fst (detectRamLeak now d)"
  by (simp add: detectRamLeak_def Let_def)

lemma detect_short:
  "length (window d) \<ge> 1 \<Longrightarrow> length (window d) < 8 \<Longrightarrow>
   fst (detect origin now leakNow d) = snd (absolute_layer origin now (last (window d)) (d, []))"
  by (cases "window d") (simp_all add: detect_def Let_def)

lemma detect_long:
  assumes "length (window d) \<ge> 8"
  shows "fst (detect origin now leakNow d) =
     snd (absolute_layer origin now (last (window d)) (d, []))
     @ snd (statistical_layer origin now (last (window d)) (baseline_of (window d))
             (fst (absolute_layer origin now (last (window d)) (d, [])), []))
     @ leak_events leakNow d"
proof -
  let ?lst = "last (window d)"
  obtain d4 out4 where acc: "absolute_layer origin now ?lst (d, []) = (d4, out4)"
    by (cases "absolute_layer origin now ?lst (d, [])")
  let ?st = "statistical_layer origin now ?lst (baseline_of (window d)) (d4, out4)"
  have d4: "window d4 = window d" "lastLeakAtMs d4 = lastLeakAtMs d"
    using absolute_layer_fst(1,2) [of origin now ?lst d "[]"] by (simp_all add: acc)
  have st_snd: "snd ?st = out4 @ snd (statistical_layer origin now ?lst (baseline_of (window d)) (d4, []))"
    by (simp add: statistical_layer_out)
  have w: "window (fst ?st) = window d" and l: "lastLeakAtMs (fst ?st) = lastLeakAtMs d"
    by (simp_all add: statistical_layer_fst d4)
  have lk: "fst (detectRamLeak leakNow (fst ?st)) = fst (detectRamLeak leakNow d)"
    using w l by (rule detectRamLeak_cong)
  have ne: "window d \<noteq> []" using assms by auto
  have unfold: "detect origin now leakNow d =
      (case ?st of (d', out) \<Rightarrow>
         (case detectRamLeak leakNow d' of
            (None, d'') \<Rightarrow> (out, d'')
          | (Some leak, d'') \<Rightarrow> (out @ [leak], d'')))"
    using assms ne by (simp add: detect_def Let_def acc)
  have "fst (detect origin now leakNow d) = snd ?st @ leak_events leakNow d"
    using lk unfolding unfold leak_events_def
    by (cases ?st; cases "detectRamLeak leakNow (fst ?st)")
       (auto split: option.splits)
  then show ?thesis using st_snd by (simp add: acc)
qed

lemma ev_type_spike_event [simp]:
  "ev_type (spike_event t sev origin lst acts) = t"
  "severity (spike_event t sev origin lst acts) = sev"
  by (simp_all add: spike_event_def)

lemma leak_events_cases:
  "leak_events now d = [] \<or> (\<exists>e. leak_events now d = [e] \<and> ev_type e = ram_leak)"
  by (auto simp: leak_events_def detectRamLeak_def leak_event_def Let_def split: option.splits if_splits)

lemma abs_types:
  "map ev_type (snd (absolute_layer origin now lst (d, []))) =
     (if cpu lst \<ge> 95 \<and> \<not> cooldown d now cpu_spike 15000 then [cpu_spike] else [])
   @ (if ram lst \<ge> 95 \<and> \<not> cooldown d now ram_spike 15000 then [ram_spike] else [])
   @ (if io lst \<ge> 95 \<and> \<not> cooldown d now io_spike 12000 then [io_spike] else [])
   @ (if disk lst \<ge> 90 \<and> \<not> cooldown d now disk_full 30000 then [disk_full] else [])"
  by (simp add: absolute_layer_out fires_def)

lemma stat_types:
  "map ev_type (snd (statistical_layer origin now lst bl (d, []))) =
     (if cpu lst < 95 \<and> cpu lst \<ge> 85 \<and> num_ge (z (cpu lst) (meanStd (map cpu bl))) (rd 2.8)
         \<and> \<not> cooldown d now cpu_spike 15000 then [cpu_spike] else [])
   @ (if ram lst < 95 \<and> ram lst \<ge> 85 \<and> num_ge (z (ram lst) (meanStd (map ram bl))) (rd 2.8)
         \<and> \<not> cooldown d now ram_spike 15000 then [ram_spike] else [])
   @ (if io lst < 95 \<and> io lst \<ge> 85 \<and> num_ge (z (io lst) (meanStd (map io bl))) (rd 2.6)
         \<and> \<not> cooldown d now io_spike 12000 then [io_spike] else [])"
  by (simp add: statistical_layer_out fires_def)

lemma kinds_distinct:
  assumes "\<not> (a1 \<and> s1)" "\<not> (a2 \<and> s2)" "\<not> (a3 \<and> s3)"
  shows "distinct (((if a1 then [cpu_spike] else []) @ (if a2 then [ram_spike] else [])
            @ (if a3 then [io_spike] else []) @ (if a4 then [disk_full] else []))
          @ ((if s1 then [cpu_spike] else []) @ (if s2 then [ram_spike] else [])
            @ (if s3 then [io_spike] else [])))"
  using assms by (cases a1; cases a2; cases a3; cases a4; cases s1; cases s2; cases s3) simp_all

lemma abs_types_distinct:
  "distinct (map ev_type (snd (absolute_layer origin now lst (d, []))))"
  unfolding abs_types
  using kinds_distinct [of _ False _ False _ False _] by simp

lemma abs_stat_types_distinct:
  "distinct (map ev_type (snd (absolute_layer origin now lst (d, [])))
           @ map ev_type (snd (statistical_layer origin now lst bl (d', []))))"
  unfolding abs_types stat_types by (rule kinds_distinct) simp_all

lemma abs_no_leak: "ram_leak \<notin> set (map ev_type (snd (absolute_layer origin now lst (d, []))))"
  unfolding abs_types by simp

lemma stat_no_leak: "ram_leak \<notin> set (map ev_type (snd (statistical_layer origin now lst bl (d, []))))"
  unfolding stat_types by simp

lemma distinct_snoc_kind:
  "distinct xs \<Longrightarrow> k \<notin> set xs \<Longrightarrow> ys = [] \<or> ys = [k] \<Longrightarrow> distinct (xs @ ys)"
  by auto

lemma leak_types: "map ev_type (leak_events now d) = [] \<or> map ev_type (leak_events now d) = [ram_leak]"
  using leak_events_cases [of now d] by auto

text \<open>
  C6. For every detector state, origin and pair of clock readings, the events one call of
  \<open>detect\<close> returns have pairwise different kinds.
\<close>

theorem C6_no_two_events_of_one_kind:
  "distinct (map ev_type (fst (detect origin now leakNow d)))"
proof -
  consider (empty) "length (window d) < 1" | (short) "length (window d) \<ge> 1" "length (window d) < 8"
    | (long) "length (window d) \<ge> 8" by linarith
  then show ?thesis
  proof cases
    case empty
    then show ?thesis by (simp add: detect_def)
  next
    case short
    then show ?thesis by (simp only: detect_short abs_types_distinct)
  next
    case long
    let ?lst = "last (window d)"
    let ?A = "map ev_type (snd (absolute_layer origin now ?lst (d, [])))"
    let ?S = "map ev_type (snd (statistical_layer origin now ?lst (baseline_of (window d))
                 (fst (absolute_layer origin now ?lst (d, [])), [])))"
    have AS: "distinct (?A @ ?S)" by (rule abs_stat_types_distinct)
    have nl: "ram_leak \<notin> set (?A @ ?S)" using abs_no_leak stat_no_leak by simp
    have "map ev_type (fst (detect origin now leakNow d)) = (?A @ ?S) @ map ev_type (leak_events leakNow d)"
      by (simp add: detect_long [OF long])
    moreover have "distinct ((?A @ ?S) @ map ev_type (leak_events leakNow d))"
      using AS nl leak_types by (rule distinct_snoc_kind)
    ultimately show ?thesis by simp
  qed
qed


section \<open>Cooldown of the absolute rule\<close>


lemma detect_short_snd:
  "length (window d) \<ge> 1 \<Longrightarrow> length (window d) < 8 \<Longrightarrow>
   snd (detect origin now leakNow d) = fst (absolute_layer origin now (last (window d)) (d, []))"
  by (cases "window d") (simp_all add: detect_def Let_def)

lemma push_short:
  "length (window d) < 120 \<Longrightarrow> window (push m d) = window d @ [m]"
  by (simp add: push_window window_max_def)

lemma push_lastSpikeAtMs [simp]: "lastSpikeAtMs (push m d) = lastSpikeAtMs d"
  by (simp add: push_def)

lemma push_lastLeakAtMs [simp]: "lastLeakAtMs (push m d) = lastLeakAtMs d"
  by (simp add: push_def)

lemma cooldown_push [simp]: "cooldown (push m d) now t ms = cooldown d now t ms"
  by (simp add: cooldown_def)

lemma cooldown_Some: "lastSpikeAtMs d t = Some v \<Longrightarrow> cooldown d now t ms = (now - v < ms)"
  by (simp add: cooldown_def)

lemma cooldown_None: "lastSpikeAtMs d t = None \<Longrightarrow> cooldown d now t ms = (now < ms)"
  by (simp add: cooldown_def)

text \<open>What one call of detect on a short history does about cpu_spike.\<close>

lemma short_cpu_fires:
  assumes len: "length (window d) \<ge> 1" "length (window d) < 8"
      and hot: "cpu (last (window d)) \<ge> 95"
      and cool: "\<not> cooldown d now cpu_spike 15000"
  shows "\<exists>e\<in>set (fst (detect origin now leakNow d)). ev_type e = cpu_spike \<and> severity e = critical"
    and "lastSpikeAtMs (snd (detect origin now leakNow d)) cpu_spike = Some now"
    and "window (snd (detect origin now leakNow d)) = window d"
  using hot cool
  by (simp_all add: detect_short [OF len] detect_short_snd [OF len] absolute_layer_out
        absolute_layer_fst fires_def)

lemma short_cpu_silent:
  assumes len: "length (window d) \<ge> 1" "length (window d) < 8"
      and cool: "cooldown d now cpu_spike 15000"
  shows "\<forall>e\<in>set (fst (detect origin now leakNow d)). ev_type e \<noteq> cpu_spike"
    and "lastSpikeAtMs (snd (detect origin now leakNow d)) cpu_spike = lastSpikeAtMs d cpu_spike"
    and "window (snd (detect origin now leakNow d)) = window d"
proof -
  have "cpu_spike \<notin> set (map ev_type (fst (detect origin now leakNow d)))"
    using cool unfolding detect_short [OF len] abs_types by simp
  then show "\<forall>e\<in>set (fst (detect origin now leakNow d)). ev_type e \<noteq> cpu_spike"
    by (metis image_eqI set_map)
  show "lastSpikeAtMs (snd (detect origin now leakNow d)) cpu_spike = lastSpikeAtMs d cpu_spike"
    using cool by (simp add: detect_short_snd [OF len] absolute_layer_fst)
  show "window (snd (detect origin now leakNow d)) = window d"
    by (simp add: detect_short_snd [OF len] absolute_layer_fst)
qed

text \<open>
  C2. On a new detector, after the push of a sample with cpu 96, \<open>detect\<close> at a clock
  reading \<open>t1\<close> of at least 15000 ms returns a critical cpu_spike event. After the push
  of a second sample with cpu 96, \<open>detect\<close> at a reading less than 15000 ms after \<open>t1\<close>
  returns no cpu_spike event. After the push of a third such sample, \<open>detect\<close> at a
  reading at least 15000 ms after \<open>t1\<close> returns a critical cpu_spike event again.
  (\<open>Date.now()\<close> counts milliseconds from 1970, and a new detector has no entry in its
  cooldown table, which reads as 0.)
\<close>

theorem C2_cpu_spike_cooldown:
  assumes "cpu s1 = 96" "cpu s2 = 96" "cpu s3 = 96"
      and "t1 \<ge> 15000" "t2 - t1 < 15000" "t3 - t1 \<ge> 15000"
  shows "let r1 = detect o1 t1 l1 (push s1 new_AnomalyDetector);
             r2 = detect o2 t2 l2 (push s2 (snd r1));
             r3 = detect o3 t3 l3 (push s3 (snd r2))
         in (\<exists>e\<in>set (fst r1). ev_type e = cpu_spike \<and> severity e = critical) \<and>
            (\<forall>e\<in>set (fst r2). ev_type e \<noteq> cpu_spike) \<and>
            (\<exists>e\<in>set (fst r3). ev_type e = cpu_spike \<and> severity e = critical)"
proof -
  let ?d1 = "push s1 new_AnomalyDetector"
  let ?r1 = "detect o1 t1 l1 ?d1"
  let ?d2 = "push s2 (snd ?r1)"
  let ?r2 = "detect o2 t2 l2 ?d2"
  let ?d3 = "push s3 (snd ?r2)"
  let ?r3 = "detect o3 t3 l3 ?d3"
  have w1: "window ?d1 = [s1]"
    by (simp add: push_short new_AnomalyDetector_def)
  have c1: "\<not> cooldown ?d1 t1 cpu_spike 15000"
    using assms(4) by (simp add: cooldown_None new_AnomalyDetector_def)
  have len1: "length (window ?d1) \<ge> 1" "length (window ?d1) < 8" and hot1: "cpu (last (window ?d1)) \<ge> 95"
    using assms(1) by (simp_all add: w1)
  note f1 = short_cpu_fires [OF len1 hot1 c1, of o1 l1]
  have w2: "window ?d2 = [s1, s2]"
    by (simp add: push_short f1(3) w1)
  have c2: "cooldown ?d2 t2 cpu_spike 15000"
    using assms(5) by (simp add: cooldown_Some [OF f1(2)])
  have len2: "length (window ?d2) \<ge> 1" "length (window ?d2) < 8"
    by (simp_all add: w2)
  note f2 = short_cpu_silent [OF len2 c2, of o2 l2]
  have w3: "window ?d3 = [s1, s2, s3]"
    by (simp add: push_short f2(3) w2)
  have last2: "lastSpikeAtMs (snd ?r2) cpu_spike = Some t1"
    using f2(2) f1(2) by simp
  have c3: "\<not> cooldown ?d3 t3 cpu_spike 15000"
    using assms(6) by (simp add: cooldown_Some [OF last2])
  have len3: "length (window ?d3) \<ge> 1" "length (window ?d3) < 8" and hot3: "cpu (last (window ?d3)) \<ge> 95"
    using assms(3) by (simp_all add: w3)
  note f3 = short_cpu_fires [OF len3 hot3 c3, of o3 l3]
  show ?thesis
    unfolding Let_def using f1(1) f2(1) f3(1) by blast
qed

theorem C2_cpu_spike_cooldown_witness:
  "let s = sample 96 10 10 10;
       r1 = detect ''local'' 1000000 1000000 (push s new_AnomalyDetector);
       r2 = detect ''local'' 1001200 1001200 (push s (snd r1));
       r3 = detect ''local'' 1015000 1015000 (push s (snd r2))
   in cpu s = 96 \<and> (1000000::real) \<ge> 15000 \<and> (1001200::real) - 1000000 < 15000
      \<and> (1015000::real) - 1000000 \<ge> 15000 \<and>
      (\<exists>e\<in>set (fst r1). ev_type e = cpu_spike \<and> severity e = critical) \<and>
      (\<forall>e\<in>set (fst r2). ev_type e \<noteq> cpu_spike) \<and>
      (\<exists>e\<in>set (fst r3). ev_type e = cpu_spike \<and> severity e = critical)"
  using C2_cpu_spike_cooldown [of "sample 96 10 10 10" "sample 96 10 10 10" "sample 96 10 10 10"
          1000000 1001200 1015000 "''local''" 1000000 "''local''" 1001200 "''local''" 1015000]
  by (simp add: sample_def Let_def)




section \<open>Rounding to doubles and exact arithmetic\<close>

lemma pow2_powi: "pow2 k = 2 powi k"
proof (cases "k \<ge> 0")
  case True
  then show ?thesis by (simp add: pow2_def power_int_def)
next
  case False
  have "inverse (2::real) ^ nat (- k) = 1 / 2 ^ nat (- k)"
    by (simp add: power_one_over [symmetric] inverse_eq_divide)
  then show ?thesis using False by (simp add: pow2_def power_int_def)
qed

lemma pow2_pos [simp]: "0 < pow2 k"
  by (simp add: pow2_powi)

lemma pow2_nonneg [simp]: "0 \<le> pow2 k"
  using pow2_pos [of k] by (simp only: less_imp_le)

lemma pow2_nonzero [simp]: "pow2 k \<noteq> 0"
  using pow2_pos [of k] by (simp only: less_imp_neq [THEN not_sym] not_False_eq_True)

lemma pow2_mono: "k \<le> l \<Longrightarrow> pow2 k \<le> pow2 l"
  by (simp add: pow2_powi power_int_increasing)

lemma rne_near: "\<bar>real_of_int (rne m) - m\<bar> \<le> 1"
proof -
  have "rne m = \<lfloor>m\<rfloor> \<or> rne m = \<lfloor>m\<rfloor> + 1"
    by (simp add: rne_def Let_def)
  then show ?thesis
    by (elim disjE) (simp_all, linarith+)
qed

lemma expo_le:
  assumes "\<bar>x\<bar> \<le> 2 ^ 64"
  shows "expo x \<le> 64"
proof (cases "\<bar>x\<bar> \<ge> 1")
  case True
  have "\<lfloor>\<bar>x\<bar>\<rfloor> \<le> 2 ^ 64"
    using assms by (simp add: floor_le_iff)
  then have "\<lfloor>\<bar>x\<bar>\<rfloor> < 2 ^ nat 65" by simp
  then have "bitlen \<lfloor>\<bar>x\<bar>\<rfloor> \<le> 65"
    using bitlen_le_iff_power [of "\<lfloor>\<bar>x\<bar>\<rfloor>" 65] by simp
  then show ?thesis using True by (simp add: expo_def)
next
  case False
  then show ?thesis
    using bitlen_nonneg [of "\<lceil>1 / \<bar>x\<bar>\<rceil> - 1"] by (simp add: expo_def)
qed

lemma rd_bounded:
  assumes "\<bar>x\<bar> \<le> 2 ^ 64"
  shows "rd x =
     (if x = 0 then Fin 0
      else let q = max (expo x) (- 1022) - 52
           in Fin (of_int (rne (x / pow2 q)) * pow2 q))"
proof (cases "x = 0")
  case True
  then show ?thesis by (simp add: rd_def)
next
  case False
  let ?q = "max (expo x) (- 1022) - 52"
  let ?y = "real_of_int (rne (x / pow2 ?q)) * pow2 ?q"
  have q: "?q \<le> 12" using expo_le [OF assms] by simp
  have p: "pow2 ?q \<le> 2 ^ 12"
    using pow2_mono [OF q] by (simp add: pow2_def)
  have "\<bar>real_of_int (rne (x / pow2 ?q))\<bar> \<le> \<bar>x / pow2 ?q\<bar> + 1"
    using rne_near [of "x / pow2 ?q"] by linarith
  then have "\<bar>real_of_int (rne (x / pow2 ?q))\<bar> * pow2 ?q \<le> (\<bar>x / pow2 ?q\<bar> + 1) * pow2 ?q"
    by (rule mult_right_mono) (simp add: less_imp_le)
  also have "\<dots> = \<bar>x\<bar> + pow2 ?q"
    by (simp add: abs_divide distrib_right)
  finally have "\<bar>?y\<bar> \<le> \<bar>x\<bar> + pow2 ?q"
    by (simp add: abs_mult)
  then have "\<bar>?y\<bar> \<le> 2 ^ 64 + 2 ^ 12" using assms p by linarith
  also have "(2::real) ^ 64 + 2 ^ 12 < 2 ^ 65" by simp
  also have "(2::real) ^ 65 \<le> 2 ^ 1024" by (rule power_increasing) simp_all
  finally have "\<not> pow2 1024 \<le> \<bar>?y\<bar>" by (simp add: pow2_def)
  then show ?thesis using False by (simp add: rd_def Let_def)
qed

lemma rne_of_int [simp]: "rne (of_int j) = j"
  by (simp add: rne_def Let_def)

lemma rd_of_int:
  assumes "\<bar>n\<bar> < 2 ^ 53"
  shows "rd (of_int n) = Fin (of_int n)"
proof (cases "n = 0")
  case True
  then show ?thesis by (simp add: rd_def)
next
  case False
  let ?x = "real_of_int n"
  have ge1: "\<bar>?x\<bar> \<ge> 1" using False by (simp flip: of_int_abs)
  have fl: "\<lfloor>\<bar>?x\<bar>\<rfloor> = \<bar>n\<bar>" by (simp flip: of_int_abs)
  have "\<bar>n\<bar> < 2 ^ nat 53" using assms by simp
  then have b53: "bitlen \<bar>n\<bar> \<le> 53"
    using bitlen_le_iff_power [of "\<bar>n\<bar>" 53] by simp
  have b1: "bitlen \<bar>n\<bar> \<ge> 1"
    using bitlen_ge_iff_power [of 1 "\<bar>n\<bar>"] False by simp
  have e: "expo ?x = bitlen \<bar>n\<bar> - 1" using ge1 by (simp add: expo_def fl)
  define k where "k = nat (53 - bitlen \<bar>n\<bar>)"
  have q: "max (expo ?x) (- 1022) - 52 = - int k"
    using b53 b1 by (simp add: e k_def)
  have p: "pow2 (- int k) = 1 / 2 ^ k"
    by (cases "k = 0") (simp_all add: pow2_def)
  have m: "?x / pow2 (- int k) = of_int (n * 2 ^ k)" by (simp add: p)
  have y: "real_of_int (rne (?x / pow2 (- int k))) * pow2 (- int k) = ?x"
    unfolding m rne_of_int by (simp add: p)
  have "\<bar>?x\<bar> < 2 ^ 53" using assms by (simp flip: of_int_abs add: of_int_less_iff [symmetric] del: of_int_less_iff)
  also have "(2::real) ^ 53 \<le> 2 ^ 1024" by (rule power_increasing) simp_all
  finally have small: "\<not> pow2 1024 \<le> \<bar>?x\<bar>" by (simp add: pow2_def)
  show ?thesis
    using False small by (simp add: rd_def Let_def q y)
qed

lemma rd_numeral:
  "numeral w < (2::int) ^ 53 \<Longrightarrow> rd (numeral w) = Fin (numeral w)"
  "numeral w < (2::int) ^ 53 \<Longrightarrow> rd (- numeral w) = Fin (- numeral w)"
  "rd 0 = Fin 0" "rd 1 = Fin 1"
  using rd_of_int [of "numeral w"] rd_of_int [of "- numeral w"] rd_of_int [of 1]
  by (simp_all add: rd_def)

text \<open>
  The rounding is a faithful one: \<open>expo x\<close> is the binary exponent of \<open>x\<close>, \<open>rne\<close>
  moves its argument by at most one half, and a finite result of \<open>rd x\<close> is at most
  half a unit in the last place away from \<open>x\<close>.
\<close>

lemma rne_half: "\<bar>real_of_int (rne m) - m\<bar> \<le> 1 / 2"
proof -
  let ?f = "\<lfloor>m\<rfloor>"
  have f: "real_of_int ?f \<le> m" "m < real_of_int ?f + 1" by linarith+
  show ?thesis
    using f by (auto simp: rne_def Let_def)
qed

lemma expo_bounds:
  assumes "x \<noteq> 0"
  shows "pow2 (expo x) \<le> \<bar>x\<bar> \<and> \<bar>x\<bar> < pow2 (expo x + 1)"
proof (cases "\<bar>x\<bar> \<ge> 1")
  case True
  let ?n = "\<lfloor>\<bar>x\<bar>\<rfloor>"
  have n: "?n > 0" using True by linarith
  have b: "2 ^ nat (bitlen ?n - 1) \<le> ?n" "?n < 2 ^ nat (bitlen ?n)"
    using bitlen_bounds [OF n] by simp_all
  have k: "bitlen ?n \<ge> 1" using bitlen_ge_iff_power [of 1 ?n] n by simp
  have e: "expo x = bitlen ?n - 1" using True by (simp add: expo_def)
  have lo: "pow2 (expo x) = 2 ^ nat (bitlen ?n - 1)" using k by (simp add: e pow2_def)
  have hi: "pow2 (expo x + 1) = 2 ^ nat (bitlen ?n)" using k by (simp add: e pow2_def)
  have "real_of_int (2 ^ nat (bitlen ?n - 1)) \<le> real_of_int ?n"
    using b(1) by (simp only: of_int_le_iff)
  also have "real_of_int ?n \<le> \<bar>x\<bar>" by linarith
  finally have 1: "pow2 (expo x) \<le> \<bar>x\<bar>" by (simp add: lo)
  have "?n + 1 \<le> 2 ^ nat (bitlen ?n)" using b(2) by simp
  then have "real_of_int (?n + 1) \<le> real_of_int (2 ^ nat (bitlen ?n))"
    by (simp only: of_int_le_iff)
  then have A: "real_of_int ?n + 1 \<le> 2 ^ nat (bitlen ?n)" by simp
  have B: "\<bar>x\<bar> < real_of_int ?n + 1" by linarith
  have "\<bar>x\<bar> < 2 ^ nat (bitlen ?n)" using A B by linarith
  then have 2: "\<bar>x\<bar> < pow2 (expo x + 1)" by (simp only: hi)
  show ?thesis using 1 2 by simp
next
  case False
  let ?y = "1 / \<bar>x\<bar>"
  let ?m = "\<lceil>?y\<rceil> - 1"
  have xpos: "\<bar>x\<bar> > 0" using assms by simp
  have y1: "?y > 1" using False xpos by (simp add: field_simps)
  have m: "?m > 0" using y1 by linarith
  have b: "2 ^ nat (bitlen ?m - 1) \<le> ?m" "?m < 2 ^ nat (bitlen ?m)"
    using bitlen_bounds [OF m] by simp_all
  have k: "bitlen ?m \<ge> 1" using bitlen_ge_iff_power [of 1 ?m] m by simp
  have e: "expo x = - bitlen ?m" using False by (simp add: expo_def)
  have lo: "pow2 (expo x) = 1 / 2 ^ nat (bitlen ?m)" using k by (simp add: e pow2_def)
  have hi: "pow2 (expo x + 1) = 1 / 2 ^ nat (bitlen ?m - 1)"
  proof (cases "bitlen ?m = 1")
    case True
    then show ?thesis by (simp add: e pow2_def)
  next
    case False
    then have "- bitlen ?m + 1 < 0" using k by simp
    moreover have "nat (- (- bitlen ?m + 1)) = nat (bitlen ?m - 1)" by simp
    ultimately show ?thesis by (simp add: e pow2_def)
  qed
  have "?m + 1 \<le> 2 ^ nat (bitlen ?m)" using b(2) by simp
  then have "real_of_int (?m + 1) \<le> real_of_int (2 ^ nat (bitlen ?m))"
    by (simp only: of_int_le_iff)
  then have A: "real_of_int ?m + 1 \<le> 2 ^ nat (bitlen ?m)" by simp
  have B: "?y \<le> real_of_int ?m + 1" by linarith
  have yle: "?y \<le> 2 ^ nat (bitlen ?m)" using A B by linarith
  have "real_of_int (2 ^ nat (bitlen ?m - 1)) \<le> real_of_int ?m"
    using b(1) by (simp only: of_int_le_iff)
  then have C: "2 ^ nat (bitlen ?m - 1) \<le> real_of_int ?m" by simp
  have D: "real_of_int ?m < ?y" by linarith
  have ygt: "2 ^ nat (bitlen ?m - 1) < ?y" using C D by linarith
  have 1: "pow2 (expo x) \<le> \<bar>x\<bar>"
    using yle xpos unfolding lo by (simp add: field_simps)
  have 2: "\<bar>x\<bar> < pow2 (expo x + 1)"
    using ygt xpos unfolding hi by (simp add: field_simps)
  show ?thesis using 1 2 by simp
qed

lemma rd_error:
  assumes "rd x = Fin y"
  shows "\<bar>y - x\<bar> \<le> pow2 (max (expo x) (- 1022) - 52) / 2"
proof (cases "x = 0")
  case True
  then show ?thesis using assms by (simp add: rd_def)
next
  case False
  let ?q = "max (expo x) (- 1022) - 52"
  have y: "y = real_of_int (rne (x / pow2 ?q)) * pow2 ?q"
    using assms False by (simp add: rd_def Let_def split: if_splits)
  have "y - x = (real_of_int (rne (x / pow2 ?q)) - x / pow2 ?q) * pow2 ?q"
    unfolding y by (simp add: left_diff_distrib)
  then have "\<bar>y - x\<bar> = \<bar>real_of_int (rne (x / pow2 ?q)) - x / pow2 ?q\<bar> * pow2 ?q"
    by (simp add: abs_mult)
  also have "\<dots> \<le> (1 / 2) * pow2 ?q"
    by (rule mult_right_mono [OF rne_half]) simp
  finally show ?thesis by simp
qed

lemmas rd_eval = rd_numeral rd_bounded expo_def pow2_def rne_def Let_def compute_bitlen

lemmas num_eval = num_sub_def num_ge_def num_gt_def inf_of_sign_def

lemma upt_25:
  "[0..<25] = [0, 1, 2, 3, 4, 5, 6, 7, 8, 9, 10, 11, 12, 13, 14, 15, 16, 17, 18, 19, 20, 21,
               22, 23, 24]"
  by (simp add: upt_rec [of 0] upt_rec [of "Suc n" for n] del: upt_Suc)

lemma rd_literals:
  "rd 0.22 = Fin (7926335344172073 / 36028797018963968)"
  "rd 2.8 = Fin (3152519739159347 / 1125899906842624)"
  "rd 2.6 = Fin (5854679515581645 / 2251799813685248)"
  "rd 0.001 = Fin (1152921504606847 / 1152921504606846976)"
  by (simp_all add: rd_eval)

text \<open>Exact arithmetic: the operations with \<open>r = Fin\<close>.\<close>

lemma foldl_add_exact:
  "foldl (\<lambda>a b. num_add Fin a (Fin b)) (Fin a) xs = Fin (a + sum_list xs)"
  by (induction xs arbitrary: a) simp_all

lemma reduce_sum_exact: "reduce_sum_in Fin xs = Fin (sum_list xs)"
  by (simp add: reduce_sum_in_def foldl_add_exact)

lemma foldl_squares_exact:
  "foldl (\<lambda>v x. num_add Fin v (num_mul Fin (num_sub Fin (Fin x) (Fin m)) (num_sub Fin (Fin x) (Fin m))))
         (Fin v) xs
     = Fin (v + sum_list (map (\<lambda>x. (x - m) * (x - m)) xs))"
  by (induction xs arbitrary: v) (simp_all add: num_sub_def)

lemma meanStd_exact:
  assumes "xs \<noteq> []"
  shows "meanStd_in Fin xs = \<lparr>mean = Fin (mean_of xs), std = Fin (std_of xs)\<rparr>"
proof -
  have n: "real (length xs) \<noteq> 0" using assms by simp
  have nonneg: "0 \<le> sum_list (map (\<lambda>x. (x - mean_of xs) * (x - mean_of xs)) xs) / real (length xs)"
    by (intro divide_nonneg_nonneg sum_list_nonneg) auto
  show ?thesis
    using assms n nonneg
    by (simp add: meanStd_in_def reduce_sum_exact foldl_squares_exact Let_def mean_of_def [symmetric]
          std_of_def not_less [symmetric])
qed

section \<open>The leak rule\<close>

lemma foldl_pair_exact:
  "foldl (\<lambda>(num, den) i.
            (num_add Fin num (num_mul Fin (num_sub Fin (Fin (f i)) (Fin xm)) (num_sub Fin (Fin (g i)) (Fin ym))),
             num_add Fin den (num_mul Fin (num_sub Fin (Fin (f i)) (Fin xm)) (num_sub Fin (Fin (f i)) (Fin xm)))))
         (Fin a, Fin b) [0..<n]
     = (Fin (a + (\<Sum>i<n. (f i - xm) * (g i - ym))), Fin (b + (\<Sum>i<n. (f i - xm) * (f i - xm))))"
  by (induction n) (simp_all add: num_sub_def)

lemma leak_sums_exact:
  "leak_sums_in Fin xs ys (Fin xm) (Fin ym) n =
     (Fin (\<Sum>i<n. (xs ! i - xm) * (ys ! i - ym)), Fin (\<Sum>i<n. (xs ! i - xm) * (xs ! i - xm)))"
  unfolding leak_sums_in_def
  using foldl_pair_exact [of "\<lambda>i. xs ! i" xm "\<lambda>i. ys ! i" ym 0 0 n]
  by simp

lemma den_pos:
  assumes "n \<ge> 2"
  shows "(\<Sum>i<n. (real i - c)\<^sup>2) > 0"
proof -
  have nonneg: "(\<Sum>i<n. (real i - c)\<^sup>2) \<ge> 0" by (simp add: sum_nonneg)
  have "(\<Sum>i<n. (real i - c)\<^sup>2) \<noteq> 0"
  proof
    assume "(\<Sum>i<n. (real i - c)\<^sup>2) = 0"
    then have all0: "\<forall>i\<in>{..<n}. (real i - c)\<^sup>2 = 0"
      by (subst (asm) sum_nonneg_eq_0_iff) simp_all
    have "0 \<in> {..<n}" "1 \<in> {..<n}" using assms by auto
    then have "(real 0 - c)\<^sup>2 = 0" "(real 1 - c)\<^sup>2 = 0" using all0 by blast+
    then show False by simp
  qed
  then show ?thesis using nonneg by linarith
qed

lemma leak_slope_exact:
  assumes "length ys \<ge> 2"
  shows "leak_slope_in Fin ys = Fin (ols_slope ys)"
proof -
  let ?n = "length ys"
  let ?xs = "map real [0..<?n]"
  let ?xbar = "(\<Sum>i<?n. real i) / real ?n"
  let ?ybar = "(\<Sum>i<?n. ys ! i) / real ?n"
  let ?num = "\<Sum>i<?n. (real i - ?xbar) * (ys ! i - ?ybar)"
  let ?den = "\<Sum>i<?n. (real i - ?xbar)\<^sup>2"
  have n0: "real ?n \<noteq> 0" using assms by auto
  have "sum_list ?xs = (\<Sum>i<?n. ?xs ! i)"
    by (simp add: sum_list_sum_nth lessThan_atLeast0)
  also have "\<dots> = (\<Sum>i<?n. real i)" by (rule sum.cong) simp_all
  finally have sx: "sum_list ?xs = (\<Sum>i<?n. real i)" .
  have sy: "sum_list ys = (\<Sum>i<?n. ys ! i)"
    by (simp add: sum_list_sum_nth lessThan_atLeast0)
  have xm: "num_div Fin (reduce_sum_in Fin ?xs) (Fin (real ?n)) = Fin ?xbar"
    using n0 by (simp add: reduce_sum_exact sx del: sum_list_upt)
  have ym: "num_div Fin (reduce_sum_in Fin ys) (Fin (real ?n)) = Fin ?ybar"
    using n0 by (simp add: reduce_sum_exact sy)
  have num: "(\<Sum>i<?n. (?xs ! i - ?xbar) * (ys ! i - ?ybar)) = ?num"
    by (rule sum.cong) simp_all
  have den: "(\<Sum>i<?n. (?xs ! i - ?xbar) * (?xs ! i - ?xbar)) = ?den"
    by (rule sum.cong) (simp_all add: power2_eq_square)
  have sums: "leak_sums_in Fin ?xs ys (Fin ?xbar) (Fin ?ybar) ?n = (Fin ?num, Fin ?den)"
    by (simp only: leak_sums_exact num den)
  have pos: "?den > 0" using assms by (rule den_pos)
  have "leak_slope_in Fin ys = (if num_gt (Fin ?den) (Fin 0) then num_div Fin (Fin ?num) (Fin ?den) else Fin 0)"
    unfolding leak_slope_in_def Let_def xm ym sums by (simp only: split_conv)
  also have "\<dots> = Fin (?num / ?den)" using pos by (simp add: num_gt_def)
  also have "?num / ?den = ols_slope ys" by (simp only: ols_slope_def Let_def)
  finally show ?thesis .
qed

text \<open>The slope of the two sample histories, step by step.\<close>

lemma leak_slope_steps:
  assumes "length ys = 25"
      and "num_div r (reduce_sum_in r (map real [0..<25])) (Fin 25) = xm"
      and "num_div r (reduce_sum_in r ys) (Fin 25) = ym"
      and "leak_sums_in r (map real [0..<25]) ys xm ym 25 = (num, den)"
  shows "leak_slope_in r ys = (if num_gt den (Fin 0) then num_div r num den else Fin 0)"
  using assms by (simp add: leak_slope_in_def Let_def)

lemma index_mean: "num_div rd (reduce_sum_in rd (map real [0..<25])) (Fin 25) = Fin 12"
  by (simp add: upt_25 reduce_sum_in_def rd_eval)

lemma index_mean_exact: "num_div Fin (reduce_sum_in Fin (map real [0..<25])) (Fin 25) = Fin 12"
  by (simp add: upt_25 reduce_sum_in_def)

lemma slow_mean: "num_div rd (reduce_sum_in rd slow_leak_readings) (Fin 25) = Fin (5663276531418399 / 70368744177664)"
  by (simp add: slow_leak_readings_def reduce_sum_in_def rd_eval)

lemma slow_sums:
  "leak_sums_in rd (map real [0..<25]) slow_leak_readings (Fin 12) (Fin (5663276531418399 / 70368744177664)) 25
     = (Fin (2515682604351487 / 8796093022208), Fin 1300)"
  by (simp add: leak_sums_in_def upt_25 slow_leak_readings_def num_eval rd_eval)

lemma slow_slope: "leak_slope slow_leak_readings = Fin (3963167672086035 / 18014398509481984)"
  unfolding leak_slope_def
  by (subst leak_slope_steps [OF _ index_mean slow_mean slow_sums])
     (simp_all add: slow_leak_readings_def num_eval rd_eval)

lemma slow_mean_exact:
  "num_div Fin (reduce_sum_in Fin slow_leak_readings) (Fin 25) = Fin (2012 / 25)"
  by (simp add: slow_leak_readings_def reduce_sum_in_def)

lemma slow_sums_exact:
  "leak_sums_in Fin (map real [0..<25]) slow_leak_readings (Fin 12) (Fin (2012 / 25)) 25
     = (Fin 286, Fin 1300)"
  by (simp add: leak_sums_in_def upt_25 slow_leak_readings_def num_eval)

lemma slow_ols: "ols_slope slow_leak_readings = 11 / 50"
proof -
  have "leak_slope_in Fin slow_leak_readings = Fin (11 / 50)"
    by (subst leak_slope_steps [OF _ index_mean_exact slow_mean_exact slow_sums_exact])
       (simp_all add: slow_leak_readings_def num_eval)
  moreover have "leak_slope_in Fin slow_leak_readings = Fin (ols_slope slow_leak_readings)"
    by (rule leak_slope_exact) (simp add: slow_leak_readings_def)
  ultimately show ?thesis by simp
qed

lemma ramp_values: "ramp_readings = [70, 4984452712584533 / 70368744177664, 5043093332732587 / 70368744177664, 145 / 2, 5160374573028693 / 70368744177664, 5219015193176747 / 70368744177664, 75, 5336296433472853 / 70368744177664, 5394937053620907 / 70368744177664, 155 / 2, 5512218293917013 / 70368744177664, 5570858914065067 / 70368744177664, 80, 5688140154361173 / 70368744177664, 5746780774509227 / 70368744177664, 165 / 2, 5864062014805333 / 70368744177664, 5922702634953387 / 70368744177664, 85, 6039983875249493 / 70368744177664, 6098624495397547 / 70368744177664, 175 / 2, 6215905735693653 / 70368744177664, 6274546355841707 / 70368744177664, 90]"
  by (simp add: ramp_readings_def dbl_def upt_25 rd_eval)

lemma ramp_mean: "num_div rd (reduce_sum_in rd ramp_readings) (Fin 25) = Fin (80)"
  by (simp add: ramp_values reduce_sum_in_def rd_eval)

lemma ramp_sums:
  "leak_sums_in rd (map real [0..<25]) ramp_readings (Fin 12) (Fin (80)) 25
     = (Fin (2382275193514667 / 2199023255552), Fin 1300)"
  by (simp add: leak_sums_in_def upt_25 ramp_values num_eval rd_eval)

lemma ramp_slope: "leak_slope ramp_readings = Fin (1876499844737707 / 2251799813685248)"
  unfolding leak_slope_def
  by (subst leak_slope_steps [OF _ index_mean ramp_mean ramp_sums])
     (simp_all add: ramp_values num_eval rd_eval)

lemma length_slice_last: "length (slice_last k xs) = min k (length xs)"
  by (simp add: slice_last_def)

lemma leak_events_short: "length (window d) < 25 \<Longrightarrow> leak_events leakNow d = []"
  by (simp add: leak_events_def detectRamLeak_def Let_def length_slice_last)

lemma leak_events_early: "leakNow - lastLeakAtMs d < 20000 \<Longrightarrow> leak_events leakNow d = []"
  by (simp add: leak_events_def detectRamLeak_def)

lemma leak_events_long:
  assumes len: "length (window d) \<ge> 25" and el: "leakNow - lastLeakAtMs d \<ge> 20000"
  shows "leak_events leakNow d =
     (let series = slice_last 25 (window d); ys = map ram series
      in if last ys \<ge> 80 \<and> num_ge (num_sub rd (Fin (last ys)) (Fin (hd ys))) (Fin 8)
            \<and> num_ge (leak_slope ys) (rd 0.22)
         then [leak_event (last series) (last ys)] else [])"
proof -
  let ?series = "slice_last 25 (window d)"
  let ?ys = "map ram ?series"
  have l25: "length ?series = 25" using len by (simp add: length_slice_last)
  then have ne: "?series \<noteq> []" "?ys \<noteq> []" by auto
  have lastys: "?ys ! (length ?ys - 1) = last ?ys" by (rule last_conv_nth [OF ne(2), symmetric])
  have hdys: "?ys ! 0 = hd ?ys" by (rule hd_conv_nth [OF ne(2), symmetric])
  have lasts: "?series ! (length ?series - 1) = last ?series"
    by (rule last_conv_nth [OF ne(1), symmetric])
  have "detectRamLeak leakNow d =
      (if ?ys ! (length ?ys - 1) \<ge> 80
          \<and> num_ge (num_sub rd (Fin (?ys ! (length ?ys - 1))) (Fin (?ys ! 0))) (Fin 8)
          \<and> num_ge (leak_slope ?ys) (rd 0.22)
       then (Some (leak_event (?series ! (length ?series - 1)) (?ys ! (length ?ys - 1))),
             d\<lparr>lastLeakAtMs := leakNow\<rparr>)
       else (None, d))"
    using el l25 by (simp add: detectRamLeak_def Let_def)
  then show ?thesis
    unfolding leak_events_def lastys hdys lasts Let_def by simp
qed

lemma detectRamLeak_lastLeak:
  "lastLeakAtMs (snd (detectRamLeak now d)) =
     (if leak_events now d = [] then lastLeakAtMs d else now)"
  by (simp add: leak_events_def detectRamLeak_def Let_def)

lemma detectRamLeak_lastLeak_cong:
  "window d' = window d \<Longrightarrow> lastLeakAtMs d' = lastLeakAtMs d \<Longrightarrow>
   lastLeakAtMs (snd (detectRamLeak now d')) = lastLeakAtMs (snd (detectRamLeak now d))"
  by (simp add: detectRamLeak_def Let_def)

lemma detect_long_lastLeak:
  assumes "length (window d) \<ge> 8"
  shows "lastLeakAtMs (snd (detect origin now leakNow d)) =
           lastLeakAtMs (snd (detectRamLeak leakNow d))"
proof -
  let ?lst = "last (window d)"
  obtain d4 out4 where acc: "absolute_layer origin now ?lst (d, []) = (d4, out4)"
    by (cases "absolute_layer origin now ?lst (d, [])")
  let ?st = "statistical_layer origin now ?lst (baseline_of (window d)) (d4, out4)"
  have d4: "window d4 = window d" "lastLeakAtMs d4 = lastLeakAtMs d"
    using absolute_layer_fst(1,2) [of origin now ?lst d "[]"] by (simp_all add: acc)
  have w: "window (fst ?st) = window d" and l: "lastLeakAtMs (fst ?st) = lastLeakAtMs d"
    by (simp_all add: statistical_layer_fst d4)
  have ne: "window d \<noteq> []" using assms by auto
  have unfold: "detect origin now leakNow d =
      (case ?st of (d', out) \<Rightarrow>
         (case detectRamLeak leakNow d' of
            (None, d'') \<Rightarrow> (out, d'')
          | (Some leak, d'') \<Rightarrow> (out @ [leak], d'')))"
    using assms ne by (simp add: detect_def Let_def acc)
  have "snd (detect origin now leakNow d) = snd (detectRamLeak leakNow (fst ?st))"
    unfolding unfold
    by (cases ?st; cases "detectRamLeak leakNow (fst ?st)") (auto split: option.splits)
  then show ?thesis
    using detectRamLeak_lastLeak_cong [OF w l] by simp
qed

lemma filter_none: "k \<notin> set (map ev_type xs) \<Longrightarrow> filter (\<lambda>e. ev_type e = k) xs = []"
  by (induction xs) auto

lemma filter_leak_events: "filter (\<lambda>e. ev_type e = ram_leak) (leak_events now d) = leak_events now d"
  using leak_events_cases [of now d] by auto

lemma detect_leaks:
  "filter (\<lambda>e. ev_type e = ram_leak) (fst (detect origin now leakNow d)) =
     (if length (window d) \<ge> 8 then leak_events leakNow d else [])"
proof -
  consider (empty) "length (window d) < 1" | (short) "length (window d) \<ge> 1" "length (window d) < 8"
    | (long) "length (window d) \<ge> 8" by linarith
  then show ?thesis
  proof cases
    case empty
    then show ?thesis by (simp add: detect_def)
  next
    case short
    then show ?thesis by (simp add: detect_short filter_none [OF abs_no_leak])
  next
    case long
    then show ?thesis
      by (simp add: detect_long filter_none [OF abs_no_leak] filter_none [OF stat_no_leak]
            filter_leak_events)
  qed
qed

lemma detect_lastLeak:
  "lastLeakAtMs (snd (detect origin now leakNow d)) =
     (if filter (\<lambda>e. ev_type e = ram_leak) (fst (detect origin now leakNow d)) = []
      then lastLeakAtMs d else leakNow)"
proof -
  consider (empty) "length (window d) < 1" | (short) "length (window d) \<ge> 1" "length (window d) < 8"
    | (long) "length (window d) \<ge> 8" by linarith
  then show ?thesis
  proof cases
    case empty
    then show ?thesis by (simp add: detect_def)
  next
    case short
    then show ?thesis
      by (simp add: detect_leaks detect_short_snd absolute_layer_fst)
  next
    case long
    then show ?thesis
      by (simp add: detect_leaks detect_long_lastLeak detectRamLeak_lastLeak)
  qed
qed

lemma severity_leak_event: "severity (leak_event lst v) = (if v \<ge> 92 then critical else warn)"
  by (simp add: leak_event_def)

lemma ramp_ends: "last ramp_readings = 90" "hd ramp_readings = 70" "length ramp_readings = 25"
  by (simp_all add: ramp_values)

lemma ramp_rule:
  "last ramp_readings \<ge> 80 \<and>
   num_ge (num_sub rd (Fin (last ramp_readings)) (Fin (hd ramp_readings))) (Fin 8) \<and>
   num_ge (leak_slope ramp_readings) (rd 0.22)"
  unfolding ramp_ends ramp_slope rd_literals by (simp add: num_eval rd_eval)

text \<open>
  C3 (amended). Let \<open>leaks\<close> be the ram_leak events one call of \<open>detect\<close> returns and
  \<open>ys\<close> the last 25 RAM readings. With fewer than 25 samples, or at a clock reading less
  than 20000 ms after the last leak event, there is no ram_leak event. With at least 25
  samples and a reading at least 20000 ms after it, there is one ram_leak event when the
  latest reading is at least 80, the rise (latest minus first, rounded to a double) is at
  least 8 and the slope as the source computes it in double arithmetic is at least the
  double nearest to 0.22, and none otherwise; its severity is critical when the latest
  reading is at least 92, else warn. \<open>lastLeakAtMs\<close> becomes the clock reading when an event
  is returned and stays otherwise. In exact arithmetic the computation of the slope gives
  the least-squares slope of index against value. For the 25 doubles nearest to
  \<open>70 + 20 i / 24\<close> there is exactly one ram_leak event.
\<close>

theorem C3_ram_leak_rule:
  "let out = detect origin now leakNow d;
       leaks = filter (\<lambda>e. ev_type e = ram_leak) (fst out);
       ys = map ram (slice_last 25 (window d));
       rule = (last ys \<ge> 80 \<and>
               num_ge (num_sub rd (Fin (last ys)) (Fin (hd ys))) (Fin 8) \<and>
               num_ge (leak_slope ys) (rd 0.22))
   in (length (window d) < 25 \<longrightarrow> leaks = []) \<and>
      (leakNow - lastLeakAtMs d < 20000 \<longrightarrow> leaks = []) \<and>
      (length (window d) \<ge> 25 \<and> leakNow - lastLeakAtMs d \<ge> 20000 \<longrightarrow>
         length leaks = (if rule then 1 else 0) \<and>
         (\<forall>e\<in>set leaks. severity e = (if last ys \<ge> 92 then critical else warn))) \<and>
      lastLeakAtMs (snd out) = (if leaks = [] then lastLeakAtMs d else leakNow) \<and>
      (length (window d) \<ge> 25 \<longrightarrow> leak_slope_in Fin ys = Fin (ols_slope ys)) \<and>
      (map ram (window d) = ramp_readings \<and> leakNow - lastLeakAtMs d \<ge> 20000 \<longrightarrow>
         length leaks = 1)"
proof -
  let ?out = "detect origin now leakNow d"
  let ?leaks = "filter (\<lambda>e. ev_type e = ram_leak) (fst ?out)"
  let ?ys = "map ram (slice_last 25 (window d))"
  let ?rule = "last ?ys \<ge> 80 \<and>
               num_ge (num_sub rd (Fin (last ?ys)) (Fin (hd ?ys))) (Fin 8) \<and>
               num_ge (leak_slope ?ys) (rd 0.22)"
  have short: "length (window d) < 25 \<longrightarrow> ?leaks = []"
    by (simp add: detect_leaks leak_events_short)
  have early: "leakNow - lastLeakAtMs d < 20000 \<longrightarrow> ?leaks = []"
    by (simp add: detect_leaks leak_events_early)
  have long: "?leaks = (if ?rule then [leak_event (last (slice_last 25 (window d))) (last ?ys)] else [])"
    if "length (window d) \<ge> 25" "leakNow - lastLeakAtMs d \<ge> 20000"
    using that by (simp add: detect_leaks leak_events_long Let_def)
  have general: "length (window d) \<ge> 25 \<and> leakNow - lastLeakAtMs d \<ge> 20000 \<longrightarrow>
         length ?leaks = (if ?rule then 1 else 0) \<and>
         (\<forall>e\<in>set ?leaks. severity e = (if last ?ys \<ge> 92 then critical else warn))"
    using long by (simp add: severity_leak_event)
  have stamp: "lastLeakAtMs (snd ?out) = (if ?leaks = [] then lastLeakAtMs d else leakNow)"
    by (rule detect_lastLeak)
  have exact: "length (window d) \<ge> 25 \<longrightarrow> leak_slope_in Fin ?ys = Fin (ols_slope ?ys)"
  proof
    assume "length (window d) \<ge> 25"
    then have "length ?ys \<ge> 2" by (simp add: length_slice_last)
    then show "leak_slope_in Fin ?ys = Fin (ols_slope ?ys)" by (rule leak_slope_exact)
  qed
  have ramp: "length ?leaks = 1"
    if r: "map ram (window d) = ramp_readings" and el: "leakNow - lastLeakAtMs d \<ge> 20000"
  proof -
    have "length (map ram (window d)) = 25" unfolding r by (rule ramp_ends)
    then have len: "length (window d) = 25" by simp
    then have sl: "slice_last 25 (window d) = window d" by (simp add: slice_last_def)
    have ys: "?ys = ramp_readings" by (simp only: sl r)
    have "?rule" unfolding ys by (rule ramp_rule)
    then show ?thesis using long len el by simp
  qed
  show ?thesis unfolding Let_def using short early general stamp exact ramp by blast
qed

lemma push_all_lastLeakAtMs [simp]: "lastLeakAtMs (push_all ms d) = lastLeakAtMs d"
  by (induction ms rule: rev_induct) (simp_all add: push_all_snoc, simp add: push_all_def)

lemma push_all_window_small:
  "length (window d) + length ms \<le> 120 \<Longrightarrow> window (push_all ms d) = window d @ ms"
proof (induction ms rule: rev_induct)
  case Nil
  then show ?case by (simp add: push_all_def)
next
  case (snoc m ms)
  then show ?case by (simp add: push_all_snoc push_short)
qed

lemma ram_sample [simp]: "ram (sample c r dk i) = r"
  by (simp add: sample_def)

theorem C3_ram_leak_rule_witness:
  "let d24 = push_all (butlast ramp_samples) new_AnomalyDetector;
       d25 = push_all ramp_samples new_AnomalyDetector;
       out25 = detect ''local'' 1001200 1001200 d25;
       leaks24 = filter (\<lambda>e. ev_type e = ram_leak) (fst (detect ''local'' 1000000 1000000 d24));
       leaks25 = filter (\<lambda>e. ev_type e = ram_leak) (fst out25);
       again = filter (\<lambda>e. ev_type e = ram_leak) (fst (detect ''local'' 1002400 1002400 (snd out25)))
   in length (window d24) < 25 \<and> leaks24 = [] \<and>
      length (window d25) \<ge> 25 \<and> 1001200 - lastLeakAtMs d25 \<ge> 20000 \<and>
      map ram (window d25) = ramp_readings \<and>
      length leaks25 = 1 \<and> (\<forall>e\<in>set leaks25. severity e = warn) \<and>
      lastLeakAtMs (snd out25) = 1001200 \<and>
      1002400 - lastLeakAtMs (snd out25) < 20000 \<and> again = []"
proof -
  let ?d24 = "push_all (butlast ramp_samples) new_AnomalyDetector"
  let ?d25 = "push_all ramp_samples new_AnomalyDetector"
  let ?out25 = "detect ''local'' 1001200 1001200 ?d25"
  have lr: "length ramp_samples = 25" by (simp add: ramp_samples_def ramp_ends)
  have w24: "window ?d24 = butlast ramp_samples"
    by (simp add: push_all_window_small new_AnomalyDetector_def lr)
  have w25: "window ?d25 = ramp_samples"
    by (simp add: push_all_window_small new_AnomalyDetector_def lr)
  have l24: "length (window ?d24) < 25" unfolding w24 by (simp add: lr)
  have l25: "length (window ?d25) \<ge> 25" unfolding w25 by (simp add: lr)
  have el: "1001200 - lastLeakAtMs ?d25 \<ge> 20000" by (simp add: new_AnomalyDetector_def)
  have r: "map ram (window ?d25) = ramp_readings"
    unfolding w25 by (simp add: ramp_samples_def o_def)
  have ys: "map ram (slice_last 25 (window ?d25)) = ramp_readings"
    using r l25 lr by (simp add: slice_last_def w25)
  have lst: "last (map ram (slice_last 25 (window ?d25))) = 90"
    unfolding ys by (rule ramp_ends)
  note t24 = C3_ram_leak_rule [of "''local''" 1000000 1000000 ?d24]
  note t25 = C3_ram_leak_rule [of "''local''" 1001200 1001200 ?d25]
  note t26 = C3_ram_leak_rule [of "''local''" 1002400 1002400 "snd ?out25"]
  have one: "length (filter (\<lambda>e. ev_type e = ram_leak) (fst ?out25)) = 1"
    using t25 r el unfolding Let_def by blast
  then have ne: "filter (\<lambda>e. ev_type e = ram_leak) (fst ?out25) \<noteq> []" by auto
  have sev: "\<forall>e\<in>set (filter (\<lambda>e. ev_type e = ram_leak) (fst ?out25)). severity e = warn"
    using t25 l25 el lst unfolding Let_def by simp
  have stamp: "lastLeakAtMs (snd ?out25) = 1001200"
    using t25 ne unfolding Let_def by simp
  have early: "(1002400::real) - lastLeakAtMs (snd ?out25) < 20000" by (simp add: stamp)
  have again: "filter (\<lambda>e. ev_type e = ram_leak) (fst (detect ''local'' 1002400 1002400 (snd ?out25))) = []"
    using t26 early unfolding Let_def by blast
  have none24: "filter (\<lambda>e. ev_type e = ram_leak) (fst (detect ''local'' 1000000 1000000 ?d24)) = []"
    using t24 l24 unfolding Let_def by blast
  show ?thesis
    unfolding Let_def using l24 none24 l25 el r one sev stamp early again by blast
qed

lemma types_empty: "map ev_type xs = [] \<Longrightarrow> xs = []"
  by simp

text \<open>
  C3 as stated fails on the 25 whole readings from 76 to 84 of \<open>slow_leak_readings\<close>: the
  latest reading is 84, the rise is 8 and the least-squares slope is exactly \<open>11 / 50\<close>,
  more than 20 s after any leak event, and \<open>detect\<close> returns no event. The mean 80.48 of
  the readings is not a double, and the slope the source computes is
  0.21999999999999992 (\<open>slow_slope\<close>).
\<close>

theorem C3_exact_slope_counterexample:
  "25 \<le> length (window slow_leak_detector) \<and>
   20000 \<le> 1000000 - lastLeakAtMs slow_leak_detector \<and>
   map ram (slice_last 25 (window slow_leak_detector)) = slow_leak_readings \<and>
   80 \<le> last slow_leak_readings \<and>
   8 \<le> last slow_leak_readings - hd slow_leak_readings \<and>
   ols_slope slow_leak_readings = 11 / 50 \<and> (0.22::real) \<le> 11 / 50 \<and>
   fst (detect ''local'' 1000000 1000000 slow_leak_detector) = []"
proof -
  let ?d = slow_leak_detector
  have len: "length (window ?d) = 25"
    by (simp add: slow_leak_detector_def slow_leak_readings_def)
  have el: "20000 \<le> 1000000 - lastLeakAtMs ?d" by (simp add: slow_leak_detector_def)
  have ys: "map ram (slice_last 25 (window ?d)) = slow_leak_readings"
    using len by (simp add: slice_last_def) (simp add: slow_leak_detector_def o_def)
  have ends: "last slow_leak_readings = 84" "hd slow_leak_readings = 76"
    by (simp_all add: slow_leak_readings_def)
  have lst: "last (window ?d) = sample 20 84 20 20"
    by (simp add: slow_leak_detector_def slow_leak_readings_def)
  have vals: "cpu (sample 20 84 20 20) = 20" "ram (sample 20 84 20 20) = 84"
             "io (sample 20 84 20 20) = 20" "disk (sample 20 84 20 20) = 20"
    by (simp_all add: sample_def)
  have no_rule: "\<not> num_ge (leak_slope slow_leak_readings) (rd 0.22)"
    unfolding slow_slope rd_literals by (simp add: num_ge_def)
  have leak: "leak_events 1000000 ?d = []"
    using leak_events_long [of ?d 1000000] len el no_rule by (simp add: Let_def ys)
  have "map ev_type (snd (absolute_layer ''local'' 1000000 (last (window ?d)) (?d, []))) = []"
    unfolding abs_types lst vals by simp
  then have abs: "snd (absolute_layer ''local'' 1000000 (last (window ?d)) (?d, [])) = []"
    by (rule types_empty)
  have "map ev_type (snd (statistical_layer ''local'' 1000000 (last (window ?d))
          (baseline_of (window ?d))
          (fst (absolute_layer ''local'' 1000000 (last (window ?d)) (?d, [])), []))) = []"
    unfolding stat_types lst vals by simp
  then have stat: "snd (statistical_layer ''local'' 1000000 (last (window ?d))
          (baseline_of (window ?d))
          (fst (absolute_layer ''local'' 1000000 (last (window ?d)) (?d, [])), [])) = []"
    by (rule types_empty)
  have "8 \<le> length (window ?d)" using len by simp
  then have out: "fst (detect ''local'' 1000000 1000000 ?d) = []"
    by (simp only: detect_long abs stat leak append_Nil)
  show ?thesis
    using len el ys out by (simp add: ends slow_ols)
qed

section \<open>The statistical rules\<close>

lemma saturated_meets:
  "num_ge (Fin 999) (rd 2.8)" "\<not> num_ge (Fin 0) (rd 2.8)"
  "num_ge (Fin 999) (rd 2.6)" "\<not> num_ge (Fin 0) (rd 2.6)"
  unfolding rd_literals by (simp_all add: num_ge_def)

lemma z_meets_28: "num_ge (z x s) (rd 2.8) = zscore_meets x s 2.8"
  using saturated_meets(1,2) by (simp add: z_def zscore_meets_def)

lemma z_meets_26: "num_ge (z x s) (rd 2.6) = zscore_meets x s 2.6"
  using saturated_meets(3,4) by (simp add: z_def zscore_meets_def)

lemma cooldown_after_abs:
  "cpu lst < 95 \<Longrightarrow> cooldown (fst (absolute_layer origin now lst (d, out))) now' cpu_spike ms
     = cooldown d now' cpu_spike ms"
  "ram lst < 95 \<Longrightarrow> cooldown (fst (absolute_layer origin now lst (d, out))) now' ram_spike ms
     = cooldown d now' ram_spike ms"
  "io lst < 95 \<Longrightarrow> cooldown (fst (absolute_layer origin now lst (d, out))) now' io_spike ms
     = cooldown d now' io_spike ms"
  by (rule cooldown_cong, simp add: absolute_layer_fst)+

lemma baseline_of_long: "length w \<ge> 8 \<Longrightarrow> baseline_of w = butlast (slice_last 60 w)"
  by (simp add: baseline_of_def Let_def length_slice_last)

lemma baseline_nonempty: "length w \<ge> 8 \<Longrightarrow> butlast (slice_last 60 w) \<noteq> []"
proof -
  assume "length w \<ge> 8"
  then have "length (butlast (slice_last 60 w)) \<ge> 7"
    by (simp add: length_slice_last)
  then have "length (butlast (slice_last 60 w)) \<noteq> 0" by linarith
  then show ?thesis by (metis list.size(3))
qed

lemma mem_types: "(\<exists>e\<in>set xs. ev_type e = k) = (k \<in> set (map ev_type xs))"
  by auto

lemma stat_severity:
  "\<forall>e\<in>set (snd (statistical_layer origin now lst bl (d, []))).
     severity e = warn \<and> ev_type e \<in> {cpu_spike, ram_spike, io_spike}"
  by (auto simp: statistical_layer_out fires_def)

lemma stat_kinds:
  assumes d4: "d4 = fst (absolute_layer origin now lst (d, []))"
      and st: "st = snd (statistical_layer origin now lst bl (d4, []))"
  shows "(\<exists>e\<in>set st. ev_type e = cpu_spike) =
           (85 \<le> cpu lst \<and> cpu lst < 95 \<and> zscore_meets (cpu lst) (meanStd (map cpu bl)) 2.8
            \<and> \<not> cooldown d now cpu_spike 15000)"
    and "(\<exists>e\<in>set st. ev_type e = ram_spike) =
           (85 \<le> ram lst \<and> ram lst < 95 \<and> zscore_meets (ram lst) (meanStd (map ram bl)) 2.8
            \<and> \<not> cooldown d now ram_spike 15000)"
    and "(\<exists>e\<in>set st. ev_type e = io_spike) =
           (85 \<le> io lst \<and> io lst < 95 \<and> zscore_meets (io lst) (meanStd (map io bl)) 2.6
            \<and> \<not> cooldown d now io_spike 12000)"
  unfolding mem_types st stat_types d4 z_meets_28 z_meets_26
  using cooldown_after_abs [of lst origin now d "[]" now]
  by auto

text \<open>
  C7 (amended). With at least 8 samples the events of \<open>detect\<close> are those of the
  absolute rules, then those of the statistical rules, then the leak event if any. The
  statistical rules emit an event of a metric's kind exactly when the latest value is in
  \<open>[85, 95)\<close>, the z-score against the last 60 samples without the newest meets the
  threshold (2.8 for cpu and ram, 2.6 for io), and the kind is not in cooldown. The mean
  and the deviation are those the source computes in double arithmetic; the score is the
  rounded quotient when \<open>std > 0.001\<close>, and otherwise it is saturated when the latest value
  is at least the rounded sum \<open>mean + 5\<close>. Every event of the statistical rules has severity
  warn. In exact arithmetic \<open>meanStd\<close> gives the mean and the population standard
  deviation of the baseline.
\<close>

theorem C7_statistical_layer:
  assumes "length (window d) \<ge> 8"
  shows "let lst = last (window d);
             bl = butlast (slice_last 60 (window d));
             absd = absolute_layer origin now lst (d, []);
             st = snd (statistical_layer origin now lst bl (fst absd, []))
         in fst (detect origin now leakNow d) = snd absd @ st @ leak_events leakNow d \<and>
            ((\<exists>e\<in>set st. ev_type e = cpu_spike) =
               (85 \<le> cpu lst \<and> cpu lst < 95 \<and>
                zscore_meets (cpu lst) (meanStd (map cpu bl)) 2.8 \<and>
                \<not> cooldown d now cpu_spike 15000)) \<and>
            ((\<exists>e\<in>set st. ev_type e = ram_spike) =
               (85 \<le> ram lst \<and> ram lst < 95 \<and>
                zscore_meets (ram lst) (meanStd (map ram bl)) 2.8 \<and>
                \<not> cooldown d now ram_spike 15000)) \<and>
            ((\<exists>e\<in>set st. ev_type e = io_spike) =
               (85 \<le> io lst \<and> io lst < 95 \<and>
                zscore_meets (io lst) (meanStd (map io bl)) 2.6 \<and>
                \<not> cooldown d now io_spike 12000)) \<and>
            (\<forall>e\<in>set st. severity e = warn \<and> ev_type e \<in> {cpu_spike, ram_spike, io_spike}) \<and>
            (\<forall>f. meanStd_in Fin (map f bl) =
                   \<lparr>mean = Fin (mean_of (map f bl)), std = Fin (std_of (map f bl))\<rparr>)"
proof -
  let ?lst = "last (window d)"
  let ?bl = "butlast (slice_last 60 (window d))"
  let ?absd = "absolute_layer origin now ?lst (d, [])"
  let ?st = "snd (statistical_layer origin now ?lst ?bl (fst ?absd, []))"
  have bl: "baseline_of (window d) = ?bl" using assms by (rule baseline_of_long)
  have whole: "fst (detect origin now leakNow d) = snd ?absd @ ?st @ leak_events leakNow d"
    using detect_long [OF assms, of origin now leakNow] by (simp only: bl)
  note kinds = stat_kinds [OF refl refl, of origin now ?lst ?bl d]
  have sev: "\<forall>e\<in>set ?st. severity e = warn \<and> ev_type e \<in> {cpu_spike, ram_spike, io_spike}"
    by (rule stat_severity)
  have exact: "\<forall>f. meanStd_in Fin (map f ?bl) =
                   \<lparr>mean = Fin (mean_of (map f ?bl)), std = Fin (std_of (map f ?bl))\<rparr>"
    using baseline_nonempty [OF assms] by (simp add: meanStd_exact)
  show ?thesis
    unfolding Let_def using whole kinds sev exact by blast
qed

text \<open>The statistics of the two sample histories, step by step.\<close>

lemma meanStd_steps:
  assumes "values \<noteq> []"
      and "num_div rd (reduce_sum_in rd values) (Fin (real (length values))) = m"
      and "foldl (\<lambda>v x. num_add rd v (num_mul rd (num_sub rd (Fin x) m) (num_sub rd (Fin x) m)))
             (Fin 0) values = v"
      and "num_sqrt rd (num_div rd v (Fin (real (length values)))) = s"
  shows "meanStd values = \<lparr>mean = m, std = s\<rparr>"
  using assms by (simp add: meanStd_def meanStd_in_def Let_def)

lemma clustered_stats: "meanStd [43, 37, 41, 39, 42, 38, 40] = \<lparr>mean = Fin 40, std = Fin 2\<rparr>"
proof (rule meanStd_steps)
  show "num_div rd (reduce_sum_in rd [43, 37, 41, 39, 42, 38, 40])
          (Fin (real (length [43, 37, 41, 39, 42, 38, 40 :: real]))) = Fin 40"
    by (simp add: reduce_sum_in_def rd_eval)
  show "foldl (\<lambda>v x. num_add rd v (num_mul rd (num_sub rd (Fin x) (Fin 40)) (num_sub rd (Fin x) (Fin 40))))
          (Fin 0) [43, 37, 41, 39, 42, 38, 40] = Fin 28"
    by (simp add: num_eval rd_eval)
  show "num_sqrt rd (num_div rd (Fin 28) (Fin (real (length [43, 37, 41, 39, 42, 38, 40 :: real]))))
          = Fin 2"
    by (simp add: rd_eval)
qed simp

lemma flat_stats: "meanStd [80, 80, 80, 80, 80, 80, 80] = \<lparr>mean = Fin 80, std = Fin 0\<rparr>"
proof (rule meanStd_steps)
  show "num_div rd (reduce_sum_in rd [80, 80, 80, 80, 80, 80, 80])
          (Fin (real (length [80, 80, 80, 80, 80, 80, 80 :: real]))) = Fin 80"
    by (simp add: reduce_sum_in_def rd_eval)
  show "foldl (\<lambda>v x. num_add rd v (num_mul rd (num_sub rd (Fin x) (Fin 80)) (num_sub rd (Fin x) (Fin 80))))
          (Fin 0) [80, 80, 80, 80, 80, 80, 80] = Fin 0"
    by (simp add: num_eval rd_eval)
  show "num_sqrt rd (num_div rd (Fin 0) (Fin (real (length [80, 80, 80, 80, 80, 80, 80 :: real]))))
          = Fin 0"
    by (simp add: rd_eval)
qed simp

lemma clustered_baseline:
  "map cpu (butlast (slice_last 60 (window clustered_detector))) = [43, 37, 41, 39, 42, 38, 40]"
  by (simp add: clustered_detector_def slice_last_def sample_def)

lemma flat_baseline:
  "map cpu (butlast (slice_last 60 (window flat_detector))) = [80, 80, 80, 80, 80, 80, 80]"
  by (simp add: flat_detector_def slice_last_def sample_def)

theorem C7_statistical_layer_witness:
  "length (window clustered_detector) \<ge> 8 \<and>
   zscore_meets 90 (meanStd (map cpu (butlast (slice_last 60 (window clustered_detector))))) 2.8 \<and>
   (\<exists>e\<in>set (snd (statistical_layer ''local'' 1000000 (last (window clustered_detector))
                  (butlast (slice_last 60 (window clustered_detector)))
                  (fst (absolute_layer ''local'' 1000000 (last (window clustered_detector))
                          (clustered_detector, [])), []))).
       ev_type e = cpu_spike \<and> severity e = warn)"
proof -
  have len: "length (window clustered_detector) \<ge> 8" by (simp add: clustered_detector_def)
  have zm: "zscore_meets 90 (meanStd (map cpu (butlast (slice_last 60 (window clustered_detector))))) 2.8"
    unfolding clustered_baseline clustered_stats
    by (simp add: zscore_meets_def rd_literals num_eval rd_eval)
  have lst: "cpu (last (window clustered_detector)) = 90"
    by (simp add: clustered_detector_def sample_def)
  have cd: "\<not> cooldown clustered_detector 1000000 cpu_spike 15000"
    by (simp add: cooldown_def clustered_detector_def)
  show ?thesis
    using C7_statistical_layer [OF len, of "''local''" 1000000 1000000] zm lst cd len
    unfolding Let_def by (simp only: ) auto
qed

text \<open>
  C7 as stated fails when the latest value equals \<open>mean + 5\<close>: after seven samples with cpu
  80, a sample with cpu 85 makes \<open>detect\<close> return a cpu_spike event of severity warn, while
  85 does not exceed \<open>80 + 5\<close>. All arithmetic on these readings is exact.
\<close>

theorem C7_saturation_boundary_counterexample:
  "fst (detect ''local'' 1000000 1000000 flat_detector) =
     [spike_event cpu_spike warn ''local'' (sample 85 20 20 20) cpu_actions] \<and>
   \<not> zscore_meets_claimed (cpu (last (window flat_detector)))
        (meanStd (map cpu (butlast (slice_last 60 (window flat_detector))))) 2.8"
proof
  let ?d = flat_detector
  have lst: "last (window ?d) = sample 85 20 20 20" by (simp add: flat_detector_def)
  have vals: "cpu (sample 85 20 20 20) = 85" "ram (sample 85 20 20 20) = 20"
             "io (sample 85 20 20 20) = 20" "disk (sample 85 20 20 20) = 20"
    by (simp_all add: sample_def)
  show "\<not> zscore_meets_claimed (cpu (last (window ?d)))
        (meanStd (map cpu (butlast (slice_last 60 (window ?d))))) 2.8"
    unfolding flat_baseline flat_stats lst vals
    by (simp add: zscore_meets_claimed_def rd_literals num_eval rd_eval)
  have len: "length (window ?d) = 8" by (simp add: flat_detector_def)
  then have l8: "8 \<le> length (window ?d)" by simp
  have bl: "baseline_of (window ?d) = butlast (slice_last 60 (window ?d))"
    using l8 by (rule baseline_of_long)
  have zm: "zscore_meets 85 (meanStd (map cpu (butlast (slice_last 60 (window ?d))))) 2.8"
    unfolding flat_baseline flat_stats
    by (simp add: zscore_meets_def rd_literals num_eval rd_eval)
  have cool: "\<not> cooldown ?d 1000000 cpu_spike 15000"
    by (simp add: cooldown_def flat_detector_def)
  have cool4: "\<not> cooldown (fst (absolute_layer ''local'' 1000000 (sample 85 20 20 20) (?d, [])))
                 1000000 cpu_spike 15000"
    using cool by (simp add: cooldown_after_abs vals)
  have leak: "leak_events 1000000 ?d = []"
    by (rule leak_events_short) (simp add: len)
  have "map ev_type (snd (absolute_layer ''local'' 1000000 (last (window ?d)) (?d, []))) = []"
    unfolding abs_types lst vals by simp
  then have abs: "snd (absolute_layer ''local'' 1000000 (last (window ?d)) (?d, [])) = []"
    by (rule types_empty)
  have stat: "snd (statistical_layer ''local'' 1000000 (last (window ?d))
          (baseline_of (window ?d))
          (fst (absolute_layer ''local'' 1000000 (last (window ?d)) (?d, [])), []))
        = [spike_event cpu_spike warn ''local'' (sample 85 20 20 20) cpu_actions]"
    unfolding bl lst statistical_layer_out z_meets_28 z_meets_26 vals
    using zm cool4 by (simp add: fires_def)
  show "fst (detect ''local'' 1000000 1000000 ?d) =
     [spike_event cpu_spike warn ''local'' (sample 85 20 20 20) cpu_actions]"
    by (simp only: detect_long [OF l8] abs stat leak append_Nil append_Nil2)
qed

lemma sqrt_pow2_92: "sqrt (1 / 4951760157141521099596496896) = 1 / 70368744177664"
  by (rule real_sqrt_unique) (simp_all add: power2_eq_square)

text \<open>
  Rounding decides the saturation test: for seven readings of the double nearest to 80.1
  followed by the double nearest to 85.1, which is larger by exactly 5, the source's mean
  is 80.10000000000001 and its deviation \<open>2 ^ (- 46)\<close>, and the test fails, although the
  exact mean is the reading itself.
\<close>

lemma rounded_mean_example:
  "meanStd (replicate 7 (dbl 80.1)) =
     \<lparr>mean = Fin (5636536408630887 / 70368744177664), std = Fin (1 / 70368744177664)\<rparr> \<and>
   mean_of (replicate 7 (dbl 80.1)) = dbl 80.1 \<and>
   dbl 85.1 = dbl 80.1 + 5 \<and>
   \<not> zscore_meets (dbl 85.1) (meanStd (replicate 7 (dbl 80.1))) 2.8"
proof -
  have d801: "dbl 80.1 = 2818268204315443 / 35184372088832"
    and d851: "dbl 85.1 = 2994190064759603 / 35184372088832"
    by (simp_all add: dbl_def rd_eval)
  have rep: "replicate 7 (2818268204315443 / 35184372088832 :: real) =
      [2818268204315443 / 35184372088832, 2818268204315443 / 35184372088832,
       2818268204315443 / 35184372088832, 2818268204315443 / 35184372088832,
       2818268204315443 / 35184372088832, 2818268204315443 / 35184372088832,
       2818268204315443 / 35184372088832]"
    by (simp add: numeral_eq_Suc)
  have ms: "meanStd (replicate 7 (dbl 80.1)) =
     \<lparr>mean = Fin (5636536408630887 / 70368744177664), std = Fin (1 / 70368744177664)\<rparr>"
    unfolding d801 rep
  proof (rule meanStd_steps)
    let ?xs = "[2818268204315443 / 35184372088832, 2818268204315443 / 35184372088832,
       2818268204315443 / 35184372088832, 2818268204315443 / 35184372088832,
       2818268204315443 / 35184372088832, 2818268204315443 / 35184372088832,
       2818268204315443 / 35184372088832 :: real]"
    show "num_div rd (reduce_sum_in rd ?xs) (Fin (real (length ?xs)))
            = Fin (5636536408630887 / 70368744177664)"
      by (simp add: reduce_sum_in_def rd_eval)
    show "foldl (\<lambda>v x. num_add rd v
                   (num_mul rd (num_sub rd (Fin x) (Fin (5636536408630887 / 70368744177664)))
                      (num_sub rd (Fin x) (Fin (5636536408630887 / 70368744177664)))))
            (Fin 0) ?xs = Fin (7 / 2 ^ 92)"
      by (simp add: num_eval rd_eval)
    show "num_sqrt rd (num_div rd (Fin (7 / 2 ^ 92)) (Fin (real (length ?xs))))
            = Fin (1 / 70368744177664)"
    proof -
      have "num_div rd (Fin (7 / 2 ^ 92)) (Fin (real (length ?xs))) = Fin (1 / 2 ^ 92)"
        by (simp add: rd_eval)
      then show ?thesis by (simp add: sqrt_pow2_92 rd_eval)
    qed
  qed simp
  have m: "mean_of (replicate 7 (dbl 80.1)) = dbl 80.1"
    by (simp add: mean_of_def sum_list_replicate)
  have five: "dbl 85.1 = dbl 80.1 + 5" by (simp add: d801 d851)
  have "\<not> zscore_meets (dbl 85.1) (meanStd (replicate 7 (dbl 80.1))) 2.8"
    unfolding ms unfolding d851 rd_literals zscore_meets_def
    by (simp add: num_eval rd_eval)
  then show ?thesis using ms m five by blast
qed

section \<open>The controller\<close>


lemma clamp_range: "a \<le> b \<Longrightarrow> a \<le> clamp n a b \<and> clamp n a b \<le> b"
  by (simp add: clamp_def)











lemma dry_actions:
  "mode (cfg sh) = dry_run \<Longrightarrow> foldl (apply_action now) (sh, ex) acts = (sh, ex @ acts)"
  by (induction acts arbitrary: ex) (simp_all add: apply_action_def)

lemma dry_event:
  "mode (cfg sh) = dry_run \<Longrightarrow> apply_event now (sh, en) ev = (sh, en @ [dry_record ev])"
  by (simp add: apply_event_def dry_actions dry_record_def Let_def split: option.splits)

lemma dry_events_fold:
  "mode (cfg sh) = dry_run \<Longrightarrow>
   foldl (apply_event now) (sh, en) evs = (sh, en @ map dry_record evs)"
  by (induction evs arbitrary: en) (simp_all add: dry_event)

text \<open>
  C5. In dry-run mode \<open>apply\<close> returns the controller it was given, for every list of
  events: \<open>isRateLimited\<close>, at any clock reading, and \<open>isIsolated\<close> answer as before.
  When the policy is enabled, each event with proposed actions comes back with exactly
  those actions recorded as executed.
\<close>

theorem C5_dry_run_has_no_side_effect:
  assumes "mode (cfg sh) = dry_run"
  shows "snd (apply_events now evs sh) = sh \<and>
         isRateLimited t (snd (apply_events now evs sh)) = isRateLimited t sh \<and>
         isIsolated (snd (apply_events now evs sh)) = isIsolated sh \<and>
         fst (apply_events now evs sh) = (if enabled (cfg sh) then map dry_record evs else evs)"
proof -
  have s: "snd (apply_events now evs sh) = sh"
    using assms by (simp add: apply_events_def dry_events_fold)
  have f: "fst (apply_events now evs sh) = (if enabled (cfg sh) then map dry_record evs else evs)"
    using assms by (simp add: apply_events_def dry_events_fold)
  show ?thesis using s f by simp
qed

theorem C5_dry_run_has_no_side_effect_witness:
  "mode (cfg dry_controller) = dry_run \<and>
   apply_events 1000000
     [action_event [isolate_node ''test'', enable_rate_limit ''cpu_spike'' (Some 30)]]
     dry_controller =
   ([(action_event [isolate_node ''test'', enable_rate_limit ''cpu_spike'' (Some 30)])
       \<lparr>executed := Some (dry_run, [isolate_node ''test'', enable_rate_limit ''cpu_spike'' (Some 30)])\<rparr>],
    dry_controller) \<and>
   \<not> isRateLimited 1000001 dry_controller \<and> \<not> isIsolated dry_controller"
proof -
  have m: "mode (cfg dry_controller) = dry_run" by (simp add: dry_controller_def)
  have e: "enabled (cfg dry_controller)" by (simp add: dry_controller_def)
  show ?thesis
    using C5_dry_run_has_no_side_effect [OF m, of 1000000
            "[action_event [isolate_node ''test'', enable_rate_limit ''cpu_spike'' (Some 30)]]" 1000001]
          m e
    by (simp add: prod_eq_iff dry_record_def action_event_def)
       (simp add: dry_controller_def isRateLimited_def isIsolated_def)
qed


section \<open>The session loop\<close>


lemma tick_failure_monitor:
  assumes "src se = monitor" "monitorUrl se \<noteq> []" "valid (monitorUrl se)" "\<not> isIsolated sh"
  shows "tick valid (Inl e) clk (se, sh) =
     (if errorStreak se + 1 \<ge> 3
      then ([status_msg level_error (collect_failed (errorStreak se + 1) e),
             status_msg level_error fallback_to_local, ai_msg unreachable_event],
            se\<lparr>src := local, errorStreak := 0\<rparr>, sh)
      else ([status_msg level_error (collect_failed (errorStreak se + 1) e)],
            se\<lparr>errorStreak := errorStreak se + 1\<rparr>, sh))"
  using assms by (simp add: tick_def on_failure_def Let_def)

text \<open>
  C8. A tick on the monitor source whose collection throws sends an error status with the
  streak count after the increment; when that count reaches 3 it also sends the fallback
  status and one agent_unreachable event of severity warn, sets the source to local and
  the streak to 0. The tick returns normally in both cases, and the controller is not
  touched. Three failing ticks in a row from streak 0 send the three error statuses with
  counts 1, 2, 3, then the fallback status and exactly one agent_unreachable event, and
  leave the session on local with streak 0.
\<close>

theorem C8_monitor_failures_fall_back_to_local:
  assumes "src se = monitor" "monitorUrl se \<noteq> []" "valid (monitorUrl se)" "\<not> isIsolated sh"
  shows "tick valid (Inl e) clk (se, sh) =
           (if errorStreak se + 1 \<ge> 3
            then ([status_msg level_error (collect_failed (errorStreak se + 1) e),
                   status_msg level_error fallback_to_local, ai_msg unreachable_event],
                  se\<lparr>src := local, errorStreak := 0\<rparr>, sh)
            else ([status_msg level_error (collect_failed (errorStreak se + 1) e)],
                  se\<lparr>errorStreak := errorStreak se + 1\<rparr>, sh)) \<and>
         ev_type unreachable_event = agent_unreachable \<and> severity unreachable_event = warn \<and>
         (errorStreak se = 0 \<longrightarrow>
            ticks valid [(Inl e1, c1), (Inl e2, c2), (Inl e3, c3)] (se, sh) =
              ([status_msg level_error (collect_failed 1 e1),
                status_msg level_error (collect_failed 2 e2),
                status_msg level_error (collect_failed 3 e3),
                status_msg level_error fallback_to_local, ai_msg unreachable_event],
               se\<lparr>src := local, errorStreak := 0\<rparr>, sh))"
proof (intro conjI impI)
  show "tick valid (Inl e) clk (se, sh) =
           (if errorStreak se + 1 \<ge> 3
            then ([status_msg level_error (collect_failed (errorStreak se + 1) e),
                   status_msg level_error fallback_to_local, ai_msg unreachable_event],
                  se\<lparr>src := local, errorStreak := 0\<rparr>, sh)
            else ([status_msg level_error (collect_failed (errorStreak se + 1) e)],
                  se\<lparr>errorStreak := errorStreak se + 1\<rparr>, sh))"
    using assms by (rule tick_failure_monitor)
next
  show "ev_type unreachable_event = agent_unreachable" "severity unreachable_event = warn"
    by (simp_all add: unreachable_event_def)
next
  assume z: "errorStreak se = 0"
  let ?se1 = "se\<lparr>errorStreak := 1\<rparr>"
  let ?se2 = "se\<lparr>errorStreak := 2\<rparr>"
  have t1: "tick valid (Inl e1) c1 (se, sh) = ([status_msg level_error (collect_failed 1 e1)], ?se1, sh)"
    using tick_failure_monitor [of se valid sh e1 c1] assms z by simp
  have t2: "tick valid (Inl e2) c2 (?se1, sh) = ([status_msg level_error (collect_failed 2 e2)], ?se2, sh)"
    using tick_failure_monitor [of ?se1 valid sh e2 c2] assms by simp
  have t3: "tick valid (Inl e3) c3 (?se2, sh) =
      ([status_msg level_error (collect_failed 3 e3), status_msg level_error fallback_to_local,
        ai_msg unreachable_event], se\<lparr>src := local, errorStreak := 0\<rparr>, sh)"
    using tick_failure_monitor [of ?se2 valid sh e3 c3] assms by simp
  show "ticks valid [(Inl e1, c1), (Inl e2, c2), (Inl e3, c3)] (se, sh) =
              ([status_msg level_error (collect_failed 1 e1),
                status_msg level_error (collect_failed 2 e2),
                status_msg level_error (collect_failed 3 e3),
                status_msg level_error fallback_to_local, ai_msg unreachable_event],
               se\<lparr>src := local, errorStreak := 0\<rparr>, sh)"
    by (simp only: ticks.simps t1 t2 t3 prod.case append.simps)
qed

theorem C8_monitor_failures_fall_back_to_local_witness:
  "src monitor_session = monitor \<and> monitorUrl monitor_session \<noteq> [] \<and>
   \<not> isIsolated dry_controller \<and> errorStreak monitor_session = 0 \<and>
   ticks (\<lambda>u. True)
     [(Inl ''HTTP 500'', clock_at 1000000), (Inl ''HTTP 500'', clock_at 1001200),
      (Inl ''timeout'', clock_at 1002400)] (monitor_session, dry_controller) =
     ([status_msg level_error (collect_failed 1 ''HTTP 500''),
       status_msg level_error (collect_failed 2 ''HTTP 500''),
       status_msg level_error (collect_failed 3 ''timeout''),
       status_msg level_error fallback_to_local, ai_msg unreachable_event],
      monitor_session\<lparr>src := local, errorStreak := 0\<rparr>, dry_controller)"
proof -
  have a: "src monitor_session = monitor" "monitorUrl monitor_session \<noteq> []"
          "(\<lambda>u. True) (monitorUrl monitor_session)" "\<not> isIsolated dry_controller"
    and z: "errorStreak monitor_session = 0"
    by (simp_all add: monitor_session_def dry_controller_def isIsolated_def)
  show ?thesis
    using C8_monitor_failures_fall_back_to_local [of monitor_session "\<lambda>u. True" dry_controller
            "''HTTP 500''" "clock_at 1000000"
            "''HTTP 500''" "clock_at 1000000" "''HTTP 500''" "clock_at 1001200"
            "''timeout''" "clock_at 1002400"] a z
    by (simp del: ticks.simps)
qed


lemma tick_collected:
  assumes "\<not> isIsolated sh" "src se = monitor \<longrightarrow> monitorUrl se \<noteq> [] \<and> valid (monitorUrl se)"
  shows "tick valid (Inr m) clk (se, sh) =
           on_collected (if src se = monitor then ''monitor'' else ''local'') m clk se sh"
  using assms by (simp add: tick_def)

lemma on_collected_eq:
  "on_collected dflt m clk se sh =
     (let origin = (case source m of None \<Rightarrow> dflt | Some s \<Rightarrow> s);
          r = detect origin (t_detect clk) (t_leak clk) (push m (detector se));
          a = apply_events (t_apply clk) (fst r) sh
      in ([metrics_msg m] @ map ai_msg (fst a) @
          (if fst r \<noteq> [] then [policy_snapshot (t_snapshot clk) (snd a)] else []),
          se\<lparr>errorStreak := 0, detector := snd r\<rparr>, snd a))"
  by (simp add: on_collected_def Let_def split: prod.splits)

lemma no_snapshot_without_detect:
  assumes "isIsolated sh \<or> (src se = monitor \<and> (monitorUrl se = [] \<or> \<not> valid (monitorUrl se)))
           \<or> collected = Inl e"
  shows "filter is_snapshot (fst (tick valid collected clk (se, sh))) = []"
  using assms
  by (auto simp: tick_def on_failure_def Let_def is_snapshot_def unreachable_event_def
           split: sum.splits)

text \<open>
  C9. A tick that collects a sample sends the sample, then the events \<open>apply\<close> returned,
  and, when \<open>detect\<close> returned at least one event, one policy snapshot as the last
  message, whose four fields are read from the controller that \<open>apply\<close> left behind; when
  \<open>detect\<close> returned no event it sends no snapshot. A tick that does not reach \<open>detect\<close>
  (isolated node, invalid monitor URL, failed collection) sends no snapshot.
\<close>

theorem C9_policy_snapshot_after_apply:
  "(\<not> isIsolated sh \<and> (src se = monitor \<longrightarrow> monitorUrl se \<noteq> [] \<and> valid (monitorUrl se)) \<longrightarrow>
      (let origin = (case source m of
                       None \<Rightarrow> (if src se = monitor then ''monitor'' else ''local'')
                     | Some s \<Rightarrow> s);
           events = fst (detect origin (t_detect clk) (t_leak clk) (push m (detector se)));
           applied = apply_events (t_apply clk) events sh;
           sh' = snd applied
       in tick valid (Inr m) clk (se, sh) =
            ([metrics_msg m] @ map ai_msg (fst applied) @
             (if events \<noteq> []
              then [selfheal_msg (enabled (getConfig sh')) (mode (getConfig sh'))
                      (isRateLimited (t_snapshot clk) sh') (isIsolated sh')]
              else []),
             se\<lparr>errorStreak := 0,
                detector := snd (detect origin (t_detect clk) (t_leak clk) (push m (detector se)))\<rparr>,
             sh') \<and>
          filter is_snapshot (map ai_msg (fst applied)) = [] \<and>
          \<not> is_snapshot (metrics_msg m))) \<and>
   (isIsolated sh \<or> (src se = monitor \<and> (monitorUrl se = [] \<or> \<not> valid (monitorUrl se)))
      \<or> collected = Inl e \<longrightarrow>
      filter is_snapshot (fst (tick valid collected clk (se, sh))) = [])"
proof (intro conjI impI)
  assume a: "\<not> isIsolated sh \<and> (src se = monitor \<longrightarrow> monitorUrl se \<noteq> [] \<and> valid (monitorUrl se))"
  have ns: "\<And>xs. filter is_snapshot (map ai_msg xs) = []"
    by (simp add: filter_empty_conv is_snapshot_def)
  show "let origin = (case source m of
                       None \<Rightarrow> (if src se = monitor then ''monitor'' else ''local'')
                     | Some s \<Rightarrow> s);
           events = fst (detect origin (t_detect clk) (t_leak clk) (push m (detector se)));
           applied = apply_events (t_apply clk) events sh;
           sh' = snd applied
       in tick valid (Inr m) clk (se, sh) =
            ([metrics_msg m] @ map ai_msg (fst applied) @
             (if events \<noteq> []
              then [selfheal_msg (enabled (getConfig sh')) (mode (getConfig sh'))
                      (isRateLimited (t_snapshot clk) sh') (isIsolated sh')]
              else []),
             se\<lparr>errorStreak := 0,
                detector := snd (detect origin (t_detect clk) (t_leak clk) (push m (detector se)))\<rparr>,
             sh') \<and>
          filter is_snapshot (map ai_msg (fst applied)) = [] \<and>
          \<not> is_snapshot (metrics_msg m)"
    using a
    by (simp add: tick_collected on_collected_eq Let_def policy_snapshot_def ns is_snapshot_def)
next
  assume "isIsolated sh \<or> (src se = monitor \<and> (monitorUrl se = [] \<or> \<not> valid (monitorUrl se)))
      \<or> collected = Inl e"
  then show "filter is_snapshot (fst (tick valid collected clk (se, sh))) = []"
    by (rule no_snapshot_without_detect)
qed


theorem C9_policy_snapshot_after_apply_witness:
  "\<not> isIsolated armed_controller \<and> src local_session \<noteq> monitor \<and>
   \<not> isRateLimited 1000000 armed_controller \<and>
   fst (tick (\<lambda>u. True) (Inr hot_sample) (clock_at 1000000) (local_session, armed_controller)) =
     [metrics_msg hot_sample,
      ai_msg ((spike_event cpu_spike critical ''local'' hot_sample cpu_actions)
                \<lparr>executed := Some (armed, [enable_rate_limit ''cpu_spike'' (Some 30),
                     load_balance_hint ''not executable (for explanation)''])\<rparr>),
      selfheal_msg True armed True False] \<and>
   filter is_snapshot
     (fst (tick (\<lambda>u. True) (Inl ''HTTP 500'') (clock_at 1000000) (local_session, armed_controller)))
     = []"
proof -
  have pre: "\<not> isIsolated armed_controller" "src local_session \<noteq> monitor"
            "\<not> isRateLimited 1000000 armed_controller"
    by (simp_all add: armed_controller_def local_session_def isIsolated_def isRateLimited_def)
  have src: "source hot_sample = Some ''local''" by (simp add: hot_sample_def sample_def)
  have w: "window (push hot_sample (detector local_session)) = [hot_sample]"
    by (simp add: push_short local_session_def new_AnomalyDetector_def)
  have len: "1 \<le> length (window (push hot_sample (detector local_session)))"
            "length (window (push hot_sample (detector local_session))) < 8"
    by (simp_all add: w)
  have cool: "\<not> cooldown (detector local_session) 1000000 cpu_spike 15000"
    by (simp add: cooldown_def local_session_def new_AnomalyDetector_def)
  have vals: "cpu hot_sample = 96" "ram hot_sample = 20" "io hot_sample = 20" "disk hot_sample = 20"
    by (simp_all add: hot_sample_def sample_def)
  have ev: "fst (detect ''local'' 1000000 1000000 (push hot_sample (detector local_session))) =
              [spike_event cpu_spike critical ''local'' hot_sample cpu_actions]"
    unfolding detect_short [OF len] w
    by (simp add: absolute_layer_out fires_def cool vals)
  have ap: "apply_events 1000000 [spike_event cpu_spike critical ''local'' hot_sample cpu_actions]
              armed_controller =
            ([(spike_event cpu_spike critical ''local'' hot_sample cpu_actions)
                \<lparr>executed := Some (armed, [enable_rate_limit ''cpu_spike'' (Some 30),
                     load_balance_hint ''not executable (for explanation)''])\<rparr>],
             armed_controller\<lparr>rateLimitUntilMs := 1030000\<rparr>)"
    by (simp add: apply_events_def apply_event_def apply_action_def armed_controller_def
          spike_event_def cpu_actions_def clamp_def Let_def)
  have snap: "isRateLimited 1000000 (armed_controller\<lparr>rateLimitUntilMs := 1030000\<rparr>)"
             "\<not> isIsolated (armed_controller\<lparr>rateLimitUntilMs := 1030000\<rparr>)"
             "enabled (getConfig (armed_controller\<lparr>rateLimitUntilMs := 1030000\<rparr>))"
             "mode (getConfig (armed_controller\<lparr>rateLimitUntilMs := 1030000\<rparr>)) = armed"
    by (simp_all add: isRateLimited_def isIsolated_def getConfig_def armed_controller_def)
  have clk: "t_detect (clock_at 1000000) = 1000000" "t_leak (clock_at 1000000) = 1000000"
            "t_apply (clock_at 1000000) = 1000000" "t_snapshot (clock_at 1000000) = 1000000"
    by (simp_all add: clock_at_def)
  show ?thesis
    using C9_policy_snapshot_after_apply [of armed_controller local_session "\<lambda>u. True" hot_sample
            "clock_at 1000000" "Inl ''HTTP 500''" "''HTTP 500''"] pre
    by (simp add: Let_def src clk ev ap snap)
qed

section \<open>The policy configuration\<close>


lemma setConfig_rateLimitSeconds:
  "rateLimitSeconds (getConfig (setConfig next sh)) =
     (case p_rateLimitSeconds next of
        None \<Rightarrow> rateLimitSeconds (getConfig sh)
      | Some r \<Rightarrow> clamp r 5 300)"
  by (simp add: setConfig_def getConfig_def Let_def split: option.splits)

lemma setConfig_keeps_range:
  assumes "5 \<le> rateLimitSeconds (getConfig sh)" "rateLimitSeconds (getConfig sh) \<le> 300"
  shows "5 \<le> rateLimitSeconds (getConfig (setConfig next sh)) \<and>
         rateLimitSeconds (getConfig (setConfig next sh)) \<le> 300"
  using assms clamp_range [of 5 300]
  by (simp add: setConfig_rateLimitSeconds split: option.splits)

lemma new_SelfHealing_default:
  "rateLimitSeconds (getConfig (new_SelfHealing None)) = 30"
  by (simp add: new_SelfHealing_def getConfig_def)

text \<open>
  C10. The constructor stores the \<open>rateLimitSeconds\<close> it is given without clamping: a
  controller constructed with 1000 reports 1000 from \<open>getConfig\<close>, also after a
  \<open>setConfig\<close> that provides no \<open>rateLimitSeconds\<close>. Only \<open>setConfig\<close> clamps
  (\<open>setConfig_rateLimitSeconds\<close>) and keeps a value that is in range (\<open>setConfig_keeps_range\<close>).
\<close>

theorem C10_constructor_does_not_clamp:
  "rateLimitSeconds (getConfig (new_SelfHealing (Some oversized_config))) = 1000 \<and>
   rateLimitSeconds
     (getConfig (setConfig \<lparr>p_enabled = Some True, p_mode = Some armed, p_rateLimitSeconds = None\<rparr>
        (new_SelfHealing (Some oversized_config)))) = 1000"
  by (simp add: setConfig_rateLimitSeconds)
     (simp add: new_SelfHealing_def getConfig_def oversized_config_def)

end
